theory Spec2Isabelle
  imports
    Main
    "HOL-Library.Finite_Map"
    "HOL-Library.Multiset"
    "HOL-Library.Char_ord"
    "HOL-Library.List_Lexorder"
    "HOL-Library.Code_Target_Nat"
begin

section \<open>Data model of \<^verbatim>\<open>project.cpp\<close>\<close>

text \<open>
  The C++ \<^verbatim>\<open>int\<close> is modelled by \<^typ>\<open>int\<close>; every signed addition or subtraction
  of the source whose mathematical result leaves the range of a 32-bit \<^verbatim>\<open>int\<close> is
  undefined behaviour in C++ and is a \<open>SignedOverflow\<close> fault of the model. The
  exceptions thrown by \<^verbatim>\<open>std::stoi\<close> and \<^verbatim>\<open>std::stod\<close> are faults as well.

  A \<^verbatim>\<open>double\<close> is not interpreted: the item record is polymorphic in the type \<open>'p\<close>
  of prices, and the two library routines that touch a price, the output with
  \<^verbatim>\<open>std::fixed << std::setprecision(2)\<close> and \<^verbatim>\<open>std::stod\<close>, are parameters
  (\<open>fmt\<close> and \<open>stod\<close>) of the functions that call them. The values returned by
  \<^verbatim>\<open>std::time(nullptr)\<close> are parameters too.
\<close>

type_synonym time_t = int

datatype fault = SignedOverflow | InvalidArgument | OutOfRange

definition INT_MAX :: int where
  "INT_MAX = 2147483647"

definition INT_MIN :: int where
  "INT_MIN = - 2147483648"

definition in_int_range :: "int \<Rightarrow> bool" where
  "in_int_range x \<longleftrightarrow> INT_MIN \<le> x \<and> x \<le> INT_MAX"

record 'p InventoryItem =
  i_id :: int
  i_name :: string
  i_category :: string
  i_quantity :: int
  i_price :: 'p
  i_minStockLevel :: int

definition isLowStock :: "'p InventoryItem \<Rightarrow> bool" where
  "isLowStock item \<longleftrightarrow> i_quantity item \<le> i_minStockLevel item"

record Transaction =
  t_timestamp :: time_t
  t_action :: string
  t_itemId :: int
  t_details :: string

text \<open>The constructor \<^verbatim>\<open>Transaction(action, itemId, details)\<close>; \<open>now\<close> is the clock reading.\<close>

definition mkTransaction :: "time_t \<Rightarrow> string \<Rightarrow> int \<Rightarrow> string \<Rightarrow> Transaction" where
  "mkTransaction now action itemId details =
     \<lparr>t_timestamp = now, t_action = action, t_itemId = itemId, t_details = details\<rparr>"

datatype CategoryNode =
  CategoryNode (c_name: string) (c_children: "CategoryNode list") (c_itemIds: "int list")

record Order =
  o_orderId :: int
  o_itemId :: int
  o_quantity :: int
  o_status :: string
  o_orderTime :: time_t

text \<open>The constructor \<^verbatim>\<open>Order(orderId, itemId, quantity)\<close>: the status starts as "Pending".\<close>

definition mkOrder :: "time_t \<Rightarrow> int \<Rightarrow> int \<Rightarrow> int \<Rightarrow> Order" where
  "mkOrder now orderId itemId quantity =
     \<lparr>o_orderId = orderId, o_itemId = itemId, o_quantity = quantity,
      o_status = ''Pending'', o_orderTime = now\<rparr>"

text \<open>
  The file called \<open>filename\<close>, as the class meets it: its content (\<open>None\<close> when there is
  no such file), whether a \<^verbatim>\<open>std::ifstream\<close> on an existing file opens, and whether a
  \<^verbatim>\<open>std::ofstream\<close> on the name opens, creating or truncating the file. The class never
  changes the two permissions.
\<close>

record backing_file =
  content :: "string option"
  ifstream_opens :: bool
  ofstream_opens :: bool

text \<open>What a \<^verbatim>\<open>std::ifstream\<close> on the file reads; \<open>None\<close> when it does not open.\<close>

definition ifstream_text :: "backing_file \<Rightarrow> string option" where
  "ifstream_text f = (if ifstream_opens f then content f else None)"

text \<open>
  The members of \<^verbatim>\<open>WarehouseSystem\<close>, followed by the two pieces of the environment the
  class writes to: \<open>disk\<close>, the file called \<open>filename\<close>, and \<open>cout\<close>, the text printed so
  far. The \<^verbatim>\<open>std::map\<close> is a finite map, iterated in ascending key order; the stack
  keeps its top at the head of the list, the queue its front.
\<close>

record 'p WarehouseSystem =
  inventory :: "(int, 'p InventoryItem) fmap"
  filename :: string
  nextId :: int
  transactionHistory :: "Transaction list"
  orderQueue :: "Order list"
  categoryRoot :: CategoryNode
  nextOrderId :: int
  disk :: backing_file
  cout :: string

section \<open>Printing integers\<close>

text \<open>The character of a decimal digit; \<open>digits\<close> calls it with numbers below ten only.\<close>

definition digit_char :: "nat \<Rightarrow> char" where
  "digit_char d =
     (if d = 0 then CHR ''0'' else if d = 1 then CHR ''1'' else if d = 2 then CHR ''2''
      else if d = 3 then CHR ''3'' else if d = 4 then CHR ''4'' else if d = 5 then CHR ''5''
      else if d = 6 then CHR ''6'' else if d = 7 then CHR ''7'' else if d = 8 then CHR ''8''
      else CHR ''9'')"

fun digits :: "nat \<Rightarrow> string" where
  "digits n = (if n < 10 then [digit_char n] else digits (n div 10) @ [digit_char (n mod 10)])"

declare digits.simps [simp del]

text \<open>\<^verbatim>\<open>std::to_string(int)\<close> and \<^verbatim>\<open>operator<<(int)\<close> with the default flags.\<close>

definition to_string :: "int \<Rightarrow> string" where
  "to_string n = (if n < 0 then CHR ''-'' # digits (nat (- n)) else digits (nat n))"

section \<open>Private members\<close>

text \<open>
  \<^verbatim>\<open>std::getline(stream, s, delim)\<close> called until it fails: the pieces between the
  delimiters, without a last piece when the text ends with a delimiter or is empty.
\<close>

fun getlines_from :: "char \<Rightarrow> string \<Rightarrow> string \<Rightarrow> string list" where
  "getlines_from delim cur [] = (if cur = [] then [] else [cur])"
| "getlines_from delim cur (c # cs) =
     (if c = delim then cur # getlines_from delim [] cs
      else getlines_from delim (cur @ [c]) cs)"

definition getlines :: "char \<Rightarrow> string \<Rightarrow> string list" where
  "getlines delim text = getlines_from delim [] text"

definition csv_header :: string where
  "csv_header = ''ID,Name,Category,Quantity,Price,MinStockLevel\<newline>''"

definition csv_row :: "('p \<Rightarrow> string) \<Rightarrow> 'p InventoryItem \<Rightarrow> string" where
  "csv_row fmt item =
     to_string (i_id item) @ '','' @ i_name item @ '','' @ i_category item @ '','' @
     to_string (i_quantity item) @ '','' @ fmt (i_price item) @ '','' @
     to_string (i_minStockLevel item) @ ''\<newline>''"

text \<open>A row of the file without its line break.\<close>

definition csv_fields :: "('p \<Rightarrow> string) \<Rightarrow> 'p InventoryItem \<Rightarrow> string" where
  "csv_fields fmt item =
     to_string (i_id item) @ CHR '','' # i_name item @ CHR '','' # i_category item @ CHR '','' #
     to_string (i_quantity item) @ CHR '','' # fmt (i_price item) @ CHR '','' #
     to_string (i_minStockLevel item)"

text \<open>\<^verbatim>\<open>getAllItems\<close>: the items in the iteration order of the map, ascending key.\<close>

definition getAllItems :: "'p WarehouseSystem \<Rightarrow> 'p InventoryItem list" where
  "getAllItems s = map snd (sorted_list_of_fmap (inventory s))"

text \<open>
  \<^verbatim>\<open>saveToFile\<close> truncates the file and writes the header and one row per item. The
  source does not test whether the file could be opened: on a stream that did not open
  every output operation does nothing, and the file is as it was. A write to a stream
  that did open is taken to succeed.
\<close>

definition saveToFile :: "('p \<Rightarrow> string) \<Rightarrow> 'p WarehouseSystem \<Rightarrow> 'p WarehouseSystem" where
  "saveToFile fmt s =
     (if ofstream_opens (disk s)
      then s\<lparr>disk := (disk s)\<lparr>content :=
                Some (csv_header @ concat (map (csv_row fmt) (getAllItems s)))\<rparr>\<rparr>
      else s)"

definition getItemsByCategory :: "string \<Rightarrow> 'p WarehouseSystem \<Rightarrow> 'p InventoryItem list" where
  "getItemsByCategory category s = filter (\<lambda>item. i_category item = category) (getAllItems s)"

definition addTransaction ::
  "time_t \<Rightarrow> string \<Rightarrow> int \<Rightarrow> string \<Rightarrow> 'p WarehouseSystem \<Rightarrow> 'p WarehouseSystem" where
  "addTransaction now action itemId details s =
     s\<lparr>transactionHistory := mkTransaction now action itemId details # transactionHistory s\<rparr>"

definition initializeCategoryTree :: "'p WarehouseSystem \<Rightarrow> 'p WarehouseSystem" where
  "initializeCategoryTree s = s\<lparr>categoryRoot := CategoryNode ''Root'' [] []\<rparr>"

text \<open>
  \<^verbatim>\<open>findOrCreateCategory\<close> followed by the \<^verbatim>\<open>push_back\<close> on the node it returns: the
  tree is walked along the path, a missing child is appended, and the identifier is
  appended at the node reached. \<open>replace_first\<close> rebuilds the child list around the child
  that \<^verbatim>\<open>std::find_if\<close> found.
\<close>

fun replace_first :: "('a \<Rightarrow> bool) \<Rightarrow> ('a \<Rightarrow> 'a) \<Rightarrow> 'a list \<Rightarrow> 'a list" where
  "replace_first P f [] = []"
| "replace_first P f (x # xs) = (if P x then f x # xs else x # replace_first P f xs)"

fun push_at_path :: "string list \<Rightarrow> int \<Rightarrow> CategoryNode \<Rightarrow> CategoryNode" where
  "push_at_path [] itemId (CategoryNode n cs ids) = CategoryNode n cs (ids @ [itemId])"
| "push_at_path (p # ps) itemId (CategoryNode n cs ids) =
     (case find (\<lambda>c. c_name c = p) cs of
        None \<Rightarrow> CategoryNode n (cs @ [push_at_path ps itemId (CategoryNode p [] [])]) ids
      | Some child \<Rightarrow>
          CategoryNode n (replace_first (\<lambda>c. c_name c = p) (push_at_path ps itemId) cs) ids)"

definition recordItem :: "string \<Rightarrow> int \<Rightarrow> 'p WarehouseSystem \<Rightarrow> 'p WarehouseSystem" where
  "recordItem category itemId s =
     s\<lparr>categoryRoot := push_at_path (getlines CHR ''/'' category) itemId (categoryRoot s)\<rparr>"

section \<open>Public members\<close>

definition addItem ::
  "('p \<Rightarrow> string) \<Rightarrow> time_t \<Rightarrow> 'p InventoryItem \<Rightarrow> 'p WarehouseSystem \<Rightarrow> fault + 'p WarehouseSystem" where
  "addItem fmt now item s =
     (if INT_MAX \<le> i_id item then Inl SignedOverflow
      else
        let s1 = s\<lparr>inventory := fmupd (i_id item) item (inventory s)\<rparr>;
            s2 = s1\<lparr>nextId := i_id item + 1\<rparr>;
            s3 = recordItem (i_category item) (i_id item) s2;
            s4 = addTransaction now ''Add'' (i_id item)
                   (''Added '' @ i_name item @ '' to category '' @ i_category item) s3
        in Inr (saveToFile fmt s4))"

definition removeItem ::
  "('p \<Rightarrow> string) \<Rightarrow> int \<Rightarrow> 'p WarehouseSystem \<Rightarrow> bool \<times> 'p WarehouseSystem" where
  "removeItem fmt itemId s =
     (if fmlookup (inventory s) itemId \<noteq> None
      then (True, saveToFile fmt (s\<lparr>inventory := fmdrop itemId (inventory s)\<rparr>))
      else (False, s))"

definition updateItem ::
  "('p \<Rightarrow> string) \<Rightarrow> 'p InventoryItem \<Rightarrow> 'p WarehouseSystem \<Rightarrow> bool \<times> 'p WarehouseSystem" where
  "updateItem fmt item s =
     (if fmlookup (inventory s) (i_id item) \<noteq> None
      then (True, saveToFile fmt (s\<lparr>inventory := fmupd (i_id item) item (inventory s)\<rparr>))
      else (False, s))"

text \<open>\<^verbatim>\<open>findItem\<close> returns a pointer to the stored record, or the null pointer.\<close>

definition findItem :: "int \<Rightarrow> 'p WarehouseSystem \<Rightarrow> 'p InventoryItem option" where
  "findItem itemId s = fmlookup (inventory s) itemId"

definition getNextId :: "'p WarehouseSystem \<Rightarrow> int" where
  "getNextId s = nextId s"

text \<open>
  \<^verbatim>\<open>createOrder\<close>: \<open>tOrder\<close> is the clock reading of the \<^verbatim>\<open>Order\<close> constructor and
  \<open>tLog\<close> that of the \<^verbatim>\<open>Transaction\<close> constructor.
\<close>

definition createOrder ::
  "time_t \<Rightarrow> time_t \<Rightarrow> int \<Rightarrow> int \<Rightarrow> 'p WarehouseSystem \<Rightarrow> fault + 'p WarehouseSystem" where
  "createOrder tOrder tLog itemId quantity s =
     (if findItem itemId s \<noteq> None \<and> quantity > 0 then
        (if INT_MAX \<le> nextOrderId s then Inl SignedOverflow
         else
           let s1 = s\<lparr>orderQueue := orderQueue s @ [mkOrder tOrder (nextOrderId s) itemId quantity],
                      nextOrderId := nextOrderId s + 1\<rparr>;
               s2 = addTransaction tLog ''Order Created'' itemId
                      (''Ordered '' @ to_string quantity @ '' units'') s1
           in Inr (s2\<lparr>cout := cout s2 @ ''Order created successfully!\<newline>''\<rparr>))
      else Inr (s\<lparr>cout := cout s @ ''Invalid item ID or quantity!\<newline>''\<rparr>))"

text \<open>
  \<^verbatim>\<open>processNextOrder\<close>: the front order is copied and popped; the pointer returned by
  \<^verbatim>\<open>findItem\<close> is written through, which updates the record stored under the order's
  item identifier.
\<close>

definition processNextOrder ::
  "('p \<Rightarrow> string) \<Rightarrow> time_t \<Rightarrow> 'p WarehouseSystem \<Rightarrow> fault + 'p WarehouseSystem" where
  "processNextOrder fmt now s =
     (case orderQueue s of
        [] \<Rightarrow> Inr (s\<lparr>cout := cout s @ ''No orders to process!\<newline>''\<rparr>)
      | order # rest \<Rightarrow>
          let s1 = s\<lparr>orderQueue := rest\<rparr> in
          (case findItem (o_itemId order) s1 of
             None \<Rightarrow> Inr s1
           | Some item \<Rightarrow>
               if i_quantity item \<ge> o_quantity order then
                 (if \<not> in_int_range (i_quantity item - o_quantity order) then Inl SignedOverflow
                  else
                    let s2 = s1\<lparr>inventory :=
                                 fmupd (o_itemId order)
                                   (item\<lparr>i_quantity := i_quantity item - o_quantity order\<rparr>)
                                   (inventory s1)\<rparr>;
                        s3 = addTransaction now ''Order Processed'' (o_itemId order)
                               (''Processed order #'' @ to_string (o_orderId order) @
                                '' for '' @ to_string (o_quantity order) @ '' units'') s2;
                        s4 = s3\<lparr>cout := cout s3 @ ''Order #'' @ to_string (o_orderId order) @
                                           '' processed successfully!\<newline>''\<rparr>
                    in Inr (saveToFile fmt s4))
               else
                 Inr (s1\<lparr>cout := cout s1 @ ''Insufficient stock for order #'' @
                                    to_string (o_orderId order) @ ''!\<newline>'',
                         orderQueue := orderQueue s1 @ [order]\<rparr>)))"

section \<open>Reading the file\<close>

text \<open>
  \<^verbatim>\<open>std::stoi\<close>: white space is skipped, a sign is accepted, the longest run of decimal
  digits is converted and what follows it is ignored. No digit gives
  \<^verbatim>\<open>std::invalid_argument\<close>, a value outside \<^verbatim>\<open>int\<close> gives \<^verbatim>\<open>std::out_of_range\<close>.
\<close>

definition isspace :: "char \<Rightarrow> bool" where
  "isspace c \<longleftrightarrow> c \<in> set [CHR '' '', CHR 0x09, CHR ''\<newline>'', CHR 0x0B, CHR 0x0C, CHR 0x0D]"

definition isdigit :: "char \<Rightarrow> bool" where
  "isdigit c \<longleftrightarrow> c \<in> set ''0123456789''"

definition digit_val :: "char \<Rightarrow> nat" where
  "digit_val c = of_char c - 48"

definition digits_val :: "string \<Rightarrow> nat" where
  "digits_val ds = foldl (\<lambda>acc c. 10 * acc + digit_val c) 0 ds"

definition stoi :: "string \<Rightarrow> fault + int" where
  "stoi str =
     (let s1 = dropWhile isspace str;
          neg = (s1 \<noteq> [] \<and> hd s1 = CHR ''-'');
          s2 = (if s1 \<noteq> [] \<and> (hd s1 = CHR ''-'' \<or> hd s1 = CHR ''+'') then tl s1 else s1);
          ds = takeWhile isdigit s2;
          v = (if neg then - int (digits_val ds) else int (digits_val ds))
      in if ds = [] then Inl InvalidArgument
         else if in_int_range v then Inr v
         else Inl OutOfRange)"

text \<open>
  A \<^verbatim>\<open>std::stringstream\<close> being read: the characters left and whether the stream is
  still good. \<^verbatim>\<open>std::getline(ss, str, delim)\<close> on a stream that is not good leaves
  \<open>str\<close> as it was; otherwise \<open>str\<close> receives the characters up to the delimiter, which
  is consumed, or up to the end, after which the stream is no longer good. The result is
  the new \<open>str\<close> and the new stream.
\<close>

type_synonym sstream = "string \<times> bool"

definition getline_delim :: "char \<Rightarrow> sstream \<Rightarrow> string \<Rightarrow> string \<times> sstream" where
  "getline_delim delim ss str =
     (if \<not> snd ss then (str, ss)
      else if delim \<in> set (fst ss)
      then (takeWhile (\<lambda>c. c \<noteq> delim) (fst ss), (tl (dropWhile (\<lambda>c. c \<noteq> delim) (fst ss)), True))
      else (fst ss, ([], False)))"

text \<open>
  The body of the \<^verbatim>\<open>while\<close> loop of \<^verbatim>\<open>loadFromFile\<close> for one line. The variable
  \<^verbatim>\<open>token\<close> is reused by the four numeric fields, so a field that cannot be read keeps
  the text of the previous one; \<^verbatim>\<open>name\<close> and \<^verbatim>\<open>category\<close> start empty.
\<close>

definition load_line ::
  "(string \<Rightarrow> fault + 'p) \<Rightarrow> string \<Rightarrow> 'p WarehouseSystem \<Rightarrow> fault + 'p WarehouseSystem" where
  "load_line stod line s =
     (let (token1, ss1) = getline_delim CHR '','' (line, True) [] in
      case stoi token1 of Inl e \<Rightarrow> Inl e | Inr ident \<Rightarrow>
      let (name, ss2) = getline_delim CHR '','' ss1 [];
          (category, ss3) = getline_delim CHR '','' ss2 [];
          (token2, ss4) = getline_delim CHR '','' ss3 token1 in
      case stoi token2 of Inl e \<Rightarrow> Inl e | Inr quantity \<Rightarrow>
      let (token3, ss5) = getline_delim CHR '','' ss4 token2 in
      case stod token3 of Inl e \<Rightarrow> Inl e | Inr price \<Rightarrow>
      let (token4, ss6) = getline_delim CHR '','' ss5 token3 in
      case stoi token4 of Inl e \<Rightarrow> Inl e | Inr minStockLevel \<Rightarrow>
      if INT_MAX \<le> ident then Inl SignedOverflow
      else Inr (s\<lparr>inventory :=
                    fmupd ident
                      \<lparr>i_id = ident, i_name = name, i_category = category, i_quantity = quantity,
                       i_price = price, i_minStockLevel = minStockLevel\<rparr>
                      (inventory s),
                  nextId := max (nextId s) (ident + 1)\<rparr>))"

fun load_lines ::
  "(string \<Rightarrow> fault + 'p) \<Rightarrow> string list \<Rightarrow> 'p WarehouseSystem \<Rightarrow> fault + 'p WarehouseSystem" where
  "load_lines stod [] s = Inr s"
| "load_lines stod (line # rest) s =
     (case load_line stod line s of Inl e \<Rightarrow> Inl e | Inr s' \<Rightarrow> load_lines stod rest s')"

text \<open>
  \<^verbatim>\<open>loadFromFile\<close>: nothing happens when the stream does not open; the first line is
  skipped.
\<close>

definition loadFromFile ::
  "(string \<Rightarrow> fault + 'p) \<Rightarrow> 'p WarehouseSystem \<Rightarrow> fault + 'p WarehouseSystem" where
  "loadFromFile stod s =
     (case ifstream_text (disk s) of
        None \<Rightarrow> Inr s
      | Some text \<Rightarrow> load_lines stod (drop 1 (getlines CHR ''\<newline>'' text)) s)"

text \<open>
  The constructor \<^verbatim>\<open>WarehouseSystem(filename)\<close>, run in an environment where the file
  is \<open>file\<close> and \<open>out\<close> has been printed. The category root is a null pointer until
  \<^verbatim>\<open>initializeCategoryTree\<close> sets it, and \<^verbatim>\<open>loadFromFile\<close> does not read it: the
  record carries the root node from the start.
\<close>

definition WarehouseSystem_ctor ::
  "(string \<Rightarrow> fault + 'p) \<Rightarrow> string \<Rightarrow> backing_file \<Rightarrow> string \<Rightarrow> fault + 'p WarehouseSystem" where
  "WarehouseSystem_ctor stod fname file out =
     (case loadFromFile stod
             \<lparr>inventory = fmempty, filename = fname, nextId = 1, transactionHistory = [],
              orderQueue = [], categoryRoot = CategoryNode ''Root'' [] [], nextOrderId = 1,
              disk = file, cout = out\<rparr> of
        Inl e \<Rightarrow> Inl e
      | Inr s \<Rightarrow> Inr (initializeCategoryTree s))"

section \<open>Sorted views and the order queue display\<close>

text \<open>
  \<^verbatim>\<open>std::sort\<close> is a parameter \<open>srt\<close>. The C++ standard promises that the range ends up
  a permutation of what it was, ordered by the comparison; it promises nothing on the
  relative order of equivalent elements. \<open>std_sort_contract srt lt\<close> is that promise for
  the comparison \<open>lt\<close>.
\<close>

type_synonym 'a sorter = "('a \<Rightarrow> 'a \<Rightarrow> bool) \<Rightarrow> 'a list \<Rightarrow> 'a list"

definition std_sort_contract :: "'a sorter \<Rightarrow> ('a \<Rightarrow> 'a \<Rightarrow> bool) \<Rightarrow> bool" where
  "std_sort_contract srt lt \<longleftrightarrow>
     (\<forall>xs. mset (srt lt xs) = mset xs \<and> sorted_wrt (\<lambda>a b. \<not> lt b a) (srt lt xs))"

definition byName :: "'p InventoryItem \<Rightarrow> 'p InventoryItem \<Rightarrow> bool" where
  "byName a b \<longleftrightarrow> i_name a < i_name b"

definition byQuantity :: "'p InventoryItem \<Rightarrow> 'p InventoryItem \<Rightarrow> bool" where
  "byQuantity a b \<longleftrightarrow> i_quantity a < i_quantity b"

text \<open>The local vector \<^verbatim>\<open>items\<close> of \<^verbatim>\<open>sortByName\<close> and \<^verbatim>\<open>sortByQuantity\<close> after the sort.\<close>

definition itemsByName :: "'p InventoryItem sorter \<Rightarrow> 'p WarehouseSystem \<Rightarrow> 'p InventoryItem list" where
  "itemsByName srt s = srt byName (getAllItems s)"

definition itemsByQuantity :: "'p InventoryItem sorter \<Rightarrow> 'p WarehouseSystem \<Rightarrow> 'p InventoryItem list" where
  "itemsByQuantity srt s = srt byQuantity (getAllItems s)"

definition name_line :: "'p InventoryItem \<Rightarrow> string" where
  "name_line item =
     ''ID: '' @ to_string (i_id item) @ '', Name: '' @ i_name item @
     '', Category: '' @ i_category item @ '', Quantity: '' @ to_string (i_quantity item) @
     ''\<newline>''"

definition quantity_line :: "'p InventoryItem \<Rightarrow> string" where
  "quantity_line item =
     ''ID: '' @ to_string (i_id item) @ '', Name: '' @ i_name item @
     '', Quantity: '' @ to_string (i_quantity item) @ ''\<newline>''"

definition sortByName :: "'p InventoryItem sorter \<Rightarrow> 'p WarehouseSystem \<Rightarrow> 'p WarehouseSystem" where
  "sortByName srt s = s\<lparr>cout := cout s @ concat (map name_line (itemsByName srt s))\<rparr>"

definition sortByQuantity :: "'p InventoryItem sorter \<Rightarrow> 'p WarehouseSystem \<Rightarrow> 'p WarehouseSystem" where
  "sortByQuantity srt s = s\<lparr>cout := cout s @ concat (map quantity_line (itemsByQuantity srt s))\<rparr>"

definition order_text :: "'p WarehouseSystem \<Rightarrow> Order \<Rightarrow> string" where
  "order_text s order =
     ''Order #'' @ to_string (o_orderId order) @ '':\<newline>'' @
     ''  Item: '' @
       (case fmlookup (inventory s) (o_itemId order) of
          Some item \<Rightarrow> i_name item | None \<Rightarrow> ''Unknown'') @
     '' (ID: '' @ to_string (o_itemId order) @ '')\<newline>'' @
     ''  Quantity: '' @ to_string (o_quantity order) @ ''\<newline>'' @
     ''  Status: '' @ o_status order @ ''\<newline>\<newline>''"

definition displayOrderQueue :: "'p WarehouseSystem \<Rightarrow> 'p WarehouseSystem" where
  "displayOrderQueue s =
     (if orderQueue s = [] then s\<lparr>cout := cout s @ ''No pending orders.\<newline>''\<rparr>
      else s\<lparr>cout := cout s @ ''\<newline>Pending Orders:\<newline>'' @ replicate 50 CHR ''-'' @ ''\<newline>'' @
                       concat (map (order_text s) (orderQueue s))\<rparr>)"

section \<open>Sequences of calls\<close>

text \<open>
  A call of a public member with its arguments and the clock readings it consumes.
  \<open>Display txt\<close> stands for any of the remaining \<^verbatim>\<open>const\<close> members
  (\<^verbatim>\<open>displayAllItems\<close>, \<^verbatim>\<open>displayLowStockItems\<close>, \<^verbatim>\<open>displayByCategory\<close>,
  \<^verbatim>\<open>displayTransactionHistory\<close>), which write some text \<open>txt\<close> to the console and
  cannot assign to a member.
\<close>

datatype 'p call =
    AddItem time_t "'p InventoryItem"
  | RemoveItem int
  | UpdateItem "'p InventoryItem"
  | CreateOrder time_t time_t int int
  | ProcessNextOrder time_t
  | SortByName
  | SortByQuantity
  | DisplayOrderQueue
  | Display string

fun exec ::
  "('p \<Rightarrow> string) \<Rightarrow> 'p InventoryItem sorter \<Rightarrow> 'p call \<Rightarrow> 'p WarehouseSystem \<Rightarrow>
   fault + 'p WarehouseSystem" where
  "exec fmt srt (AddItem now item) s = addItem fmt now item s"
| "exec fmt srt (RemoveItem itemId) s = Inr (snd (removeItem fmt itemId s))"
| "exec fmt srt (UpdateItem item) s = Inr (snd (updateItem fmt item s))"
| "exec fmt srt (CreateOrder tOrder tLog itemId quantity) s = createOrder tOrder tLog itemId quantity s"
| "exec fmt srt (ProcessNextOrder now) s = processNextOrder fmt now s"
| "exec fmt srt SortByName s = Inr (sortByName srt s)"
| "exec fmt srt SortByQuantity s = Inr (sortByQuantity srt s)"
| "exec fmt srt DisplayOrderQueue s = Inr (displayOrderQueue s)"
| "exec fmt srt (Display txt) s = Inr (s\<lparr>cout := cout s @ txt\<rparr>)"

fun run ::
  "('p \<Rightarrow> string) \<Rightarrow> 'p InventoryItem sorter \<Rightarrow> 'p call list \<Rightarrow> 'p WarehouseSystem \<Rightarrow>
   fault + 'p WarehouseSystem" where
  "run fmt srt [] s = Inr s"
| "run fmt srt (c # cs) s =
     (case exec fmt srt c s of Inl e \<Rightarrow> Inl e | Inr s' \<Rightarrow> run fmt srt cs s')"

text \<open>The calls that edit the catalogue without adding to it.\<close>

fun is_catalog_edit :: "'p call \<Rightarrow> bool" where
  "is_catalog_edit (RemoveItem itemId) = True"
| "is_catalog_edit (UpdateItem item) = True"
| "is_catalog_edit c = False"

section \<open>Two-decimal notation\<close>

text \<open>
  Numbers and their decimal texts. \<open>fixed2 x\<close> is the text of \<open>x\<close> with two decimals, the
  exact value rounded to the nearest and a tie to even, with the sign of \<open>x\<close>: what
  \<^verbatim>\<open>std::fixed << std::setprecision(2)\<close> prints for a \<^verbatim>\<open>double\<close> of value \<open>x\<close>.
  \<open>stod_decimal\<close> gives the number that a decimal numeral without exponent writes, and
  \<open>round2 x\<close> is \<open>x\<close> rounded to two decimals. In the examples a price is the rational
  number itself.
\<close>

definition round_half_even :: "rat \<Rightarrow> int" where
  "round_half_even x =
     (let f = \<lfloor>x\<rfloor>; d = x - of_int f
      in if d < 1 / 2 then f else if 1 / 2 < d then f + 1 else if even f then f else f + 1)"

definition fixed2 :: "rat \<Rightarrow> string" where
  "fixed2 p =
     (let n = nat (round_half_even (\<bar>p\<bar> * 100))
      in (if p < 0 then ''-'' else []) @ digits (n div 100) @ ''.'' @
         [digit_char (n mod 100 div 10), digit_char (n mod 10)])"

definition stod_decimal :: "string \<Rightarrow> fault + rat" where
  "stod_decimal str =
     (let s1 = dropWhile isspace str;
          neg = (s1 \<noteq> [] \<and> hd s1 = CHR ''-'');
          s2 = (if s1 \<noteq> [] \<and> (hd s1 = CHR ''-'' \<or> hd s1 = CHR ''+'') then tl s1 else s1);
          ip = takeWhile isdigit s2;
          s3 = dropWhile isdigit s2;
          fp = (if s3 \<noteq> [] \<and> hd s3 = CHR ''.'' then takeWhile isdigit (tl s3) else []);
          v = of_nat (digits_val ip) + of_nat (digits_val fp) / 10 ^ length fp
      in if ip = [] \<and> fp = [] then Inl InvalidArgument
         else Inr (if neg then - v else v))"

definition round2 :: "rat \<Rightarrow> rat" where
  "round2 p = (if p < 0 then - 1 else 1) * of_int (round_half_even (\<bar>p\<bar> * 100)) / 100"

section \<open>What a saved catalogue must satisfy to be read back\<close>

definition csv_safe :: "string \<Rightarrow> bool" where
  "csv_safe str \<longleftrightarrow> CHR '','' \<notin> set str \<and> CHR ''\<newline>'' \<notin> set str"

text \<open>
  \<open>reloadable fmt stod rd item\<close>: the integers of the record are C++ \<^verbatim>\<open>int\<close>s and the
  identifier is not the largest one, no text field holds a comma or a line break, and the
  price as \<open>fmt\<close> prints it is read by \<open>stod\<close> as \<open>rd\<close> of the price.
\<close>

definition reloadable ::
  "('p \<Rightarrow> string) \<Rightarrow> (string \<Rightarrow> fault + 'p) \<Rightarrow> ('p \<Rightarrow> 'p) \<Rightarrow> 'p InventoryItem \<Rightarrow> bool" where
  "reloadable fmt stod rd item \<longleftrightarrow>
     in_int_range (i_id item) \<and> i_id item < INT_MAX \<and>
     in_int_range (i_quantity item) \<and> in_int_range (i_minStockLevel item) \<and>
     csv_safe (i_name item) \<and> csv_safe (i_category item) \<and>
     csv_safe (fmt (i_price item)) \<and> stod (fmt (i_price item)) = Inr (rd (i_price item))"

definition reread :: "('p \<Rightarrow> 'p) \<Rightarrow> 'p InventoryItem \<Rightarrow> 'p InventoryItem" where
  "reread rd item = item\<lparr>i_price := rd (i_price item)\<rparr>"

text \<open>Every item is stored under its own identifier, and no identifier is the largest \<^verbatim>\<open>int\<close>.\<close>

definition keys_are_ids :: "'p WarehouseSystem \<Rightarrow> bool" where
  "keys_are_ids s \<longleftrightarrow>
     (\<forall>k item. fmlookup (inventory s) k = Some item \<longrightarrow> i_id item = k \<and> k < INT_MAX)"

text \<open>
  A price is a finite \<^verbatim>\<open>double\<close>, and \<open>val p\<close> is the number that the price \<open>p\<close> stands
  for. The contract of \<^verbatim>\<open>std::stod\<close> on a decimal numeral: the text is read, and no price
  is nearer to the number the text writes than the one returned.
\<close>

definition reads_nearest :: "(string \<Rightarrow> fault + 'p) \<Rightarrow> ('p \<Rightarrow> rat) \<Rightarrow> string \<Rightarrow> bool" where
  "reads_nearest stod val str \<longleftrightarrow>
     (\<exists>q x. stod str = Inr q \<and> stod_decimal str = Inr x \<and> (\<forall>p. \<bar>val q - x\<bar> \<le> \<bar>val p - x\<bar>))"

text \<open>
  \<open>storable fmt stod val item\<close>: the integers of the record are C++ \<^verbatim>\<open>int\<close>s and the
  identifier is not the largest one, the name and the category hold no comma and no line
  break, \<open>fmt\<close> prints the price as the two-decimal text of its value, and \<open>stod\<close> reads
  that text to a nearest price.
\<close>

definition storable ::
  "('p \<Rightarrow> string) \<Rightarrow> (string \<Rightarrow> fault + 'p) \<Rightarrow> ('p \<Rightarrow> rat) \<Rightarrow> 'p InventoryItem \<Rightarrow> bool" where
  "storable fmt stod val item \<longleftrightarrow>
     in_int_range (i_id item) \<and> i_id item < INT_MAX \<and>
     in_int_range (i_quantity item) \<and> in_int_range (i_minStockLevel item) \<and>
     csv_safe (i_name item) \<and> csv_safe (i_category item) \<and>
     fmt (i_price item) = fixed2 (val (i_price item)) \<and>
     reads_nearest stod val (fmt (i_price item))"

text \<open>The price that comes back when the printed price is read.\<close>

definition read_back :: "('p \<Rightarrow> string) \<Rightarrow> (string \<Rightarrow> fault + 'p) \<Rightarrow> 'p \<Rightarrow> 'p" where
  "read_back fmt stod p = (case stod (fmt p) of Inl e \<Rightarrow> p | Inr q \<Rightarrow> q)"

text \<open>The tuple of an item, with the price at two decimals.\<close>

definition tuple_of ::
  "('p \<Rightarrow> rat) \<Rightarrow> 'p InventoryItem \<Rightarrow> int \<times> string \<times> string \<times> int \<times> rat \<times> int" where
  "tuple_of val item =
     (i_id item, i_name item, i_category item, i_quantity item, round2 (val (i_price item)),
      i_minStockLevel item)"

section \<open>A sorting routine for the examples\<close>

text \<open>
  A sorting routine that keeps the promise of \<^verbatim>\<open>std::sort\<close> on every input: an
  insertion sort, which keeps equivalent elements in their order.
\<close>

fun insert_by :: "('a \<Rightarrow> 'a \<Rightarrow> bool) \<Rightarrow> 'a \<Rightarrow> 'a list \<Rightarrow> 'a list" where
  "insert_by lt x [] = [x]"
| "insert_by lt x (y # ys) = (if lt y x then y # insert_by lt x ys else x # y # ys)"

definition insertion_sort :: "'a sorter" where
  "insertion_sort lt xs = foldr (insert_by lt) xs []"

section \<open>\<^verbatim>\<open>std::sort\<close> in the GNU C++ library\<close>

text \<open>
  The routine of \<^verbatim>\<open>bits/stl_algo.h\<close> behind \<^verbatim>\<open>std::sort\<close>, on the vector as a list
  and iterators as indices: \<^verbatim>\<open>__introsort_loop\<close> partitions every range of more than 16
  elements around the median of three, \<^verbatim>\<open>__final_insertion_sort\<close> finishes. A scan that
  leaves the vector, which is undefined behaviour, is \<open>None\<close>; so is the heap sort the
  loop falls back to when its depth limit is used up, which is left out.
\<close>

text \<open>\<^verbatim>\<open>std::iter_swap\<close>.\<close>

definition swap_at :: "nat \<Rightarrow> nat \<Rightarrow> 'a list \<Rightarrow> 'a list" where
  "swap_at i j xs = xs[i := xs ! j, j := xs ! i]"

definition move_median_to_first ::
  "('a \<Rightarrow> 'a \<Rightarrow> bool) \<Rightarrow> nat \<Rightarrow> nat \<Rightarrow> nat \<Rightarrow> nat \<Rightarrow> 'a list \<Rightarrow> 'a list" where
  "move_median_to_first lt result a b c xs =
     (if lt (xs ! a) (xs ! b) then
        (if lt (xs ! b) (xs ! c) then swap_at result b xs
         else if lt (xs ! a) (xs ! c) then swap_at result c xs
         else swap_at result a xs)
      else if lt (xs ! a) (xs ! c) then swap_at result a xs
      else if lt (xs ! b) (xs ! c) then swap_at result c xs
      else swap_at result b xs)"

text \<open>
  The two inner loops of \<^verbatim>\<open>__unguarded_partition\<close>:
  \<^verbatim>\<open>while (__comp(__first, __pivot)) ++__first;\<close> and
  \<^verbatim>\<open>while (__comp(__pivot, __last)) --__last;\<close>.
\<close>

function scan_up :: "('a \<Rightarrow> 'a \<Rightarrow> bool) \<Rightarrow> nat \<Rightarrow> 'a list \<Rightarrow> nat \<Rightarrow> nat option" where
  "scan_up lt pivot xs i =
     (if length xs \<le> i then None
      else if lt (xs ! i) (xs ! pivot) then scan_up lt pivot xs (Suc i)
      else Some i)"
  by pat_completeness auto
termination
  by (relation "measure (\<lambda>(lt, pivot, xs, i). length xs - i)") auto

declare scan_up.simps [simp del]

fun scan_down :: "('a \<Rightarrow> 'a \<Rightarrow> bool) \<Rightarrow> nat \<Rightarrow> 'a list \<Rightarrow> nat \<Rightarrow> nat option" where
  "scan_down lt pivot xs 0 = (if lt (xs ! pivot) (xs ! 0) then None else Some 0)"
| "scan_down lt pivot xs (Suc j) =
     (if lt (xs ! pivot) (xs ! Suc j) then scan_down lt pivot xs j else Some (Suc j))"

text \<open>The cut and the vector as the partition leaves it; \<open>last'\<close> is one past the range.\<close>

partial_function (option) unguarded_partition ::
  "('a \<Rightarrow> 'a \<Rightarrow> bool) \<Rightarrow> nat \<Rightarrow> nat \<Rightarrow> nat \<Rightarrow> 'a list \<Rightarrow> (nat \<times> 'a list) option" where
  "unguarded_partition lt pivot first last' xs =
     (case scan_up lt pivot xs first of
        None \<Rightarrow> None
      | Some f \<Rightarrow>
          if last' = 0 then None
          else
            (case scan_down lt pivot xs (last' - 1) of
               None \<Rightarrow> None
             | Some l \<Rightarrow>
                 if \<not> f < l then Some (f, xs)
                 else unguarded_partition lt pivot (Suc f) l (swap_at f l xs)))"

declare unguarded_partition.simps [code]

definition unguarded_partition_pivot ::
  "('a \<Rightarrow> 'a \<Rightarrow> bool) \<Rightarrow> nat \<Rightarrow> nat \<Rightarrow> 'a list \<Rightarrow> (nat \<times> 'a list) option" where
  "unguarded_partition_pivot lt first last' xs =
     (let mid = first + (last' - first) div 2;
          ys = move_median_to_first lt first (first + 1) mid (last' - 1) xs
      in unguarded_partition lt first (first + 1) last' ys)"

fun introsort_loop ::
  "('a \<Rightarrow> 'a \<Rightarrow> bool) \<Rightarrow> nat \<Rightarrow> nat \<Rightarrow> nat \<Rightarrow> 'a list \<Rightarrow> 'a list option" where
  "introsort_loop lt first last' 0 xs = (if 16 < last' - first then None else Some xs)"
| "introsort_loop lt first last' (Suc depth_limit) xs =
     (if 16 < last' - first then
        (case unguarded_partition_pivot lt first last' xs of
           None \<Rightarrow> None
         | Some (cut', ys) \<Rightarrow>
             (case introsort_loop lt cut' last' depth_limit ys of
                None \<Rightarrow> None
              | Some zs \<Rightarrow> introsort_loop lt first cut' depth_limit zs))
      else Some xs)"

text \<open>
  \<^verbatim>\<open>__unguarded_linear_insert\<close> moves the value \<open>v\<close> taken from the hole down to its
  place; it does not test for the front of the vector.
\<close>

fun unguarded_linear_insert :: "('a \<Rightarrow> 'a \<Rightarrow> bool) \<Rightarrow> 'a \<Rightarrow> 'a list \<Rightarrow> nat \<Rightarrow> 'a list option" where
  "unguarded_linear_insert lt v xs 0 = None"
| "unguarded_linear_insert lt v xs (Suc n) =
     (if lt v (xs ! n) then unguarded_linear_insert lt v (xs[Suc n := xs ! n]) n
      else Some (xs[Suc n := v]))"

text \<open>
  The body of the loop of \<^verbatim>\<open>__insertion_sort\<close> for the index \<open>i\<close>: an element below
  the first one is put in front of the range, the others are moved down.
\<close>

definition insertion_step :: "('a \<Rightarrow> 'a \<Rightarrow> bool) \<Rightarrow> nat \<Rightarrow> 'a list \<Rightarrow> nat \<Rightarrow> 'a list option" where
  "insertion_step lt first xs i =
     (if lt (xs ! i) (xs ! first)
      then Some (take first xs @ xs ! i # take (i - first) (drop first xs) @ drop (Suc i) xs)
      else unguarded_linear_insert lt (xs ! i) xs i)"

fun for_each_index :: "('a list \<Rightarrow> nat \<Rightarrow> 'a list option) \<Rightarrow> nat list \<Rightarrow> 'a list \<Rightarrow> 'a list option" where
  "for_each_index body [] xs = Some xs"
| "for_each_index body (i # more_indices) xs =
     (case body xs i of None \<Rightarrow> None | Some ys \<Rightarrow> for_each_index body more_indices ys)"

definition gnu_insertion_sort :: "('a \<Rightarrow> 'a \<Rightarrow> bool) \<Rightarrow> nat \<Rightarrow> nat \<Rightarrow> 'a list \<Rightarrow> 'a list option" where
  "gnu_insertion_sort lt first last' xs =
     (if first = last' then Some xs
      else for_each_index (insertion_step lt first) [Suc first ..< last'] xs)"

definition unguarded_insertion_sort ::
  "('a \<Rightarrow> 'a \<Rightarrow> bool) \<Rightarrow> nat \<Rightarrow> nat \<Rightarrow> 'a list \<Rightarrow> 'a list option" where
  "unguarded_insertion_sort lt first last' xs =
     for_each_index (\<lambda>ys i. unguarded_linear_insert lt (ys ! i) ys i) [first ..< last'] xs"

definition final_insertion_sort ::
  "('a \<Rightarrow> 'a \<Rightarrow> bool) \<Rightarrow> nat \<Rightarrow> nat \<Rightarrow> 'a list \<Rightarrow> 'a list option" where
  "final_insertion_sort lt first last' xs =
     (if 16 < last' - first then
        (case gnu_insertion_sort lt first (first + 16) xs of
           None \<Rightarrow> None
         | Some ys \<Rightarrow> unguarded_insertion_sort lt (first + 16) last' ys)
      else gnu_insertion_sort lt first last' xs)"

fun lg :: "nat \<Rightarrow> nat" where
  "lg n = (if n < 2 then 0 else Suc (lg (n div 2)))"

declare lg.simps [simp del]

definition std_sort_gnu :: "('a \<Rightarrow> 'a \<Rightarrow> bool) \<Rightarrow> 'a list \<Rightarrow> 'a list option" where
  "std_sort_gnu lt xs =
     (if xs = [] then Some xs
      else
        (case introsort_loop lt 0 (length xs) (lg (length xs) * 2) xs of
           None \<Rightarrow> None
         | Some ys \<Rightarrow> final_insertion_sort lt 0 (length ys) ys))"

text \<open>The result where the routine returns one.\<close>

definition gnu_sort :: "'a sorter" where
  "gnu_sort lt xs = the (std_sort_gnu lt xs)"

section \<open>Example states\<close>

definition bolt :: "rat InventoryItem" where
  "bolt = \<lparr>i_id = 5, i_name = ''Bolt'', i_category = ''Hardware/Small'', i_quantity = 10,
            i_price = 1 / 8, i_minStockLevel = 2\<rparr>"

definition anvil :: "rat InventoryItem" where
  "anvil = \<lparr>i_id = 2, i_name = ''Anvil'', i_category = ''Hardware'', i_quantity = 10,
             i_price = 120, i_minStockLevel = 1\<rparr>"

definition washer :: "rat InventoryItem" where
  "washer = \<lparr>i_id = 7, i_name = ''Washer, M4'', i_category = ''Hardware'', i_quantity = 40,
              i_price = 1 / 10, i_minStockLevel = 5\<rparr>"

text \<open>No file yet, in a directory where it can be created and read.\<close>

definition no_file :: backing_file where
  "no_file = \<lparr>content = None, ifstream_opens = True, ofstream_opens = True\<rparr>"

text \<open>An engine constructed without a file.\<close>

definition fresh :: "rat WarehouseSystem" where
  "fresh = \<lparr>inventory = fmempty, filename = ''inventory.csv'', nextId = 1,
             transactionHistory = [], orderQueue = [], categoryRoot = CategoryNode ''Root'' [] [],
             nextOrderId = 1, disk = no_file, cout = []\<rparr>"

definition stocked :: "rat WarehouseSystem" where
  "stocked = fresh\<lparr>inventory := fmupd 5 bolt (fmupd 2 anvil fmempty), nextId := 6\<rparr>"

text \<open>An order for three bolts and an order for fifty, each alone in the queue.\<close>

definition order3 :: Order where
  "order3 = mkOrder 1000 1 5 3"

definition order50 :: Order where
  "order50 = mkOrder 1000 1 5 50"

definition order_gone :: Order where
  "order_gone = mkOrder 1000 1 9 1"

text \<open>The stocked engine with one entry in its transaction history.\<close>

definition logged :: "rat WarehouseSystem" where
  "logged = stocked\<lparr>transactionHistory := [mkTransaction 900 ''Add'' 5 ''Added Bolt to category Hardware/Small'']\<rparr>"

text \<open>
  A session on the fresh engine: the bolt is added, fifty and then three are ordered, the
  first order cannot be served and goes to the back, the second is served.
\<close>

definition session :: "rat call list" where
  "session = [AddItem 100 bolt, CreateOrder 200 201 5 50, CreateOrder 300 301 5 3,
              ProcessNextOrder 400, DisplayOrderQueue, ProcessNextOrder 500]"

text \<open>A catalogue whose only item has a comma in its name.\<close>

definition washers :: "rat WarehouseSystem" where
  "washers = fresh\<lparr>inventory := fmupd 7 washer fmempty, nextId := 8\<rparr>"

text \<open>A catalogue of twenty items with identifiers 1 to 20, all of quantity 5.\<close>

definition crate :: "int \<Rightarrow> rat InventoryItem" where
  "crate k = \<lparr>i_id = k, i_name = ''Crate'', i_category = ''Bulk'', i_quantity = 5,
              i_price = 1, i_minStockLevel = 0\<rparr>"

definition shelf :: "rat WarehouseSystem" where
  "shelf = fresh\<lparr>inventory := fmap_of_list (map (\<lambda>k. (k, crate k)) [1..20]), nextId := 21\<rparr>"

text \<open>
  A file that holds the header only and cannot be opened for writing, and the session
  that adds the bolt to an engine constructed on it.
\<close>

definition read_only :: backing_file where
  "read_only = \<lparr>content = Some csv_header, ifstream_opens = True, ofstream_opens = False\<rparr>"

definition locked :: "rat WarehouseSystem" where
  "locked = projr (run fixed2 insertion_sort [AddItem 100 bolt]
               (projr (WarehouseSystem_ctor stod_decimal ''inventory.csv'' read_only [])))"

section \<open>Properties\<close>

subsection \<open>Frame lemmas\<close>

lemma inventory_saveToFile [simp]: "inventory (saveToFile fmt s) = inventory s"
  and orderQueue_saveToFile [simp]: "orderQueue (saveToFile fmt s) = orderQueue s"
  and transactionHistory_saveToFile [simp]: "transactionHistory (saveToFile fmt s) = transactionHistory s"
  and nextOrderId_saveToFile [simp]: "nextOrderId (saveToFile fmt s) = nextOrderId s"
  and nextId_saveToFile [simp]: "nextId (saveToFile fmt s) = nextId s"
  and cout_saveToFile [simp]: "cout (saveToFile fmt s) = cout s"
  and categoryRoot_saveToFile [simp]: "categoryRoot (saveToFile fmt s) = categoryRoot s"
  by (simp_all add: saveToFile_def)

subsection \<open>updateItem\<close>

lemma updateItem_present:
  assumes "fmlookup (inventory s) (i_id item) \<noteq> None"
  shows "updateItem fmt item s =
           (True, saveToFile fmt (s\<lparr>inventory := fmupd (i_id item) item (inventory s)\<rparr>))"
  using assms by (simp add: updateItem_def)

lemma updateItem_absent:
  assumes "fmlookup (inventory s) (i_id item) = None"
  shows "updateItem fmt item s = (False, s)"
  using assms by (simp add: updateItem_def)

text \<open>
  Claim C7. \<^verbatim>\<open>updateItem(item)\<close> returns true exactly when the catalogue holds an item
  under the identifier of \<open>item\<close>; it then stores \<open>item\<close> under that identifier and leaves
  every other entry and the set of keys as they were. When the identifier is absent it
  returns false and the whole state, the catalogue with it, is unchanged.
\<close>

theorem updateItem_overwrites_iff_present:
  "(fst (updateItem fmt item s) \<longleftrightarrow> fmlookup (inventory s) (i_id item) \<noteq> None) \<and>
   (fmlookup (inventory s) (i_id item) \<noteq> None \<longrightarrow>
      fmlookup (inventory (snd (updateItem fmt item s))) (i_id item) = Some item \<and>
      (\<forall>k. k \<noteq> i_id item \<longrightarrow>
         fmlookup (inventory (snd (updateItem fmt item s))) k = fmlookup (inventory s) k) \<and>
      fmdom (inventory (snd (updateItem fmt item s))) = fmdom (inventory s)) \<and>
   (fmlookup (inventory s) (i_id item) = None \<longrightarrow>
      \<not> fst (updateItem fmt item s) \<and> snd (updateItem fmt item s) = s)"
proof (cases "fmlookup (inventory s) (i_id item)")
  case None
  then show ?thesis by (simp add: updateItem_absent)
next
  case (Some old)
  then have "i_id item |\<in>| fmdom (inventory s)"
    by (simp add: fmlookup_dom_iff)
  then have "finsert (i_id item) (fmdom (inventory s)) = fmdom (inventory s)"
    by auto
  with Some show ?thesis by (simp add: updateItem_present)
qed

text \<open>The bolt, present, is overwritten; the washer, absent, changes nothing.\<close>

theorem updateItem_overwrites_iff_present_witness:
  "fst (updateItem fixed2 (bolt\<lparr>i_quantity := 4\<rparr>) stocked) \<and>
   fmlookup (inventory (snd (updateItem fixed2 (bolt\<lparr>i_quantity := 4\<rparr>) stocked))) 5 =
     Some (bolt\<lparr>i_quantity := 4\<rparr>) \<and>
   fmlookup (inventory (snd (updateItem fixed2 (bolt\<lparr>i_quantity := 4\<rparr>) stocked))) 2 = Some anvil \<and>
   fmlookup (inventory stocked) 7 = None \<and>
   \<not> fst (updateItem fixed2 washer stocked) \<and>
   snd (updateItem fixed2 washer stocked) = stocked"
  using updateItem_overwrites_iff_present [of fixed2 "bolt\<lparr>i_quantity := 4\<rparr>" stocked]
    updateItem_overwrites_iff_present [of fixed2 washer stocked]
  by (simp add: stocked_def fresh_def bolt_def washer_def)

subsection \<open>processNextOrder\<close>

text \<open>
  Claim C6. When the queue is not empty and the catalogue has no item under the front
  order's item identifier, \<^verbatim>\<open>processNextOrder\<close> removes that order and does nothing else:
  the queue is one shorter, the order is not put back, and the transaction history, the
  console, the catalogue and the file are as before.
\<close>

theorem processNextOrder_drops_order_of_missing_item:
  assumes "orderQueue s = order # rest"
    and "fmlookup (inventory s) (o_itemId order) = None"
  shows "processNextOrder fmt now s = Inr (s\<lparr>orderQueue := rest\<rparr>) \<and>
         length rest + 1 = length (orderQueue s)"
  using assms by (simp add: processNextOrder_def findItem_def)

text \<open>An order for item 9, which the catalogue does not hold, in front of another order.\<close>

theorem processNextOrder_drops_order_of_missing_item_witness:
  "orderQueue (stocked\<lparr>orderQueue := [order_gone, order3]\<rparr>) = [order_gone, order3] \<and>
   fmlookup (inventory (stocked\<lparr>orderQueue := [order_gone, order3]\<rparr>)) (o_itemId order_gone) = None \<and>
   processNextOrder fixed2 2000 (stocked\<lparr>orderQueue := [order_gone, order3]\<rparr>) =
     Inr (stocked\<lparr>orderQueue := [order3]\<rparr>)"
proof -
  have q: "orderQueue (stocked\<lparr>orderQueue := [order_gone, order3]\<rparr>) = order_gone # [order3]"
    by simp
  have absent: "fmlookup (inventory (stocked\<lparr>orderQueue := [order_gone, order3]\<rparr>)) (o_itemId order_gone) = None"
    by (simp add: stocked_def fresh_def order_gone_def mkOrder_def)
  from processNextOrder_drops_order_of_missing_item [OF q absent, of fixed2 2000] q absent
  show ?thesis by simp
qed

text \<open>
  Claim C3. When the front order names an item of the catalogue whose quantity is
  smaller than the order's, \<^verbatim>\<open>processNextOrder\<close> prints the insufficient stock message
  and moves the order, as it is, to the back of the queue: the length of the queue, the
  catalogue and the transaction history do not change.
\<close>

theorem processNextOrder_requeues_on_insufficient_stock:
  assumes "orderQueue s = order # rest"
    and "fmlookup (inventory s) (o_itemId order) = Some item"
    and "i_quantity item < o_quantity order"
  shows "processNextOrder fmt now s =
           Inr (s\<lparr>orderQueue := rest @ [order],
                  cout := cout s @ ''Insufficient stock for order #'' @
                            to_string (o_orderId order) @ ''!\<newline>''\<rparr>) \<and>
         length (rest @ [order]) = length (orderQueue s)"
  using assms by (simp add: processNextOrder_def findItem_def)

text \<open>Fifty bolts ordered, ten in stock.\<close>

theorem processNextOrder_requeues_on_insufficient_stock_witness:
  "\<exists>s'. processNextOrder fixed2 2000 (stocked\<lparr>orderQueue := [order50]\<rparr>) = Inr s' \<and>
      inventory s' = inventory stocked \<and> orderQueue s' = [order50] \<and>
      o_status (hd (orderQueue s')) = ''Pending'' \<and> transactionHistory s' = [] \<and>
      cout s' = ''Insufficient stock for order #1!\<newline>''"
proof -
  have q: "orderQueue (stocked\<lparr>orderQueue := [order50]\<rparr>) = order50 # []"
    by simp
  have found: "fmlookup (inventory (stocked\<lparr>orderQueue := [order50]\<rparr>)) (o_itemId order50) = Some bolt"
    by (simp add: stocked_def fresh_def order50_def mkOrder_def)
  have less: "i_quantity bolt < o_quantity order50"
    by (simp add: bolt_def order50_def mkOrder_def)
  from processNextOrder_requeues_on_insufficient_stock [OF q found less, of fixed2 2000]
  show ?thesis
    by (simp add: stocked_def fresh_def order50_def mkOrder_def to_string_def digits.simps digit_char_def)
qed

text \<open>
  Claim C2. When the front order names an item of the catalogue whose quantity is at
  least the order's, \<^verbatim>\<open>processNextOrder\<close> lowers the quantity of that item by the
  order's quantity, leaves every other item as it was, removes the order from the queue
  and puts an "Order Processed" transaction on the history. The difference has to be an
  \<^verbatim>\<open>int\<close>, as it is whenever the item's quantity is one and the order's is not negative.
\<close>

theorem processNextOrder_fulfils_front_order:
  assumes "orderQueue s = order # rest"
    and "fmlookup (inventory s) (o_itemId order) = Some item"
    and "o_quantity order \<le> i_quantity item"
    and "in_int_range (i_quantity item - o_quantity order)"
  shows "\<exists>s'. processNextOrder fmt now s = Inr s' \<and>
           fmlookup (inventory s') (o_itemId order) =
             Some (item\<lparr>i_quantity := i_quantity item - o_quantity order\<rparr>) \<and>
           (\<forall>k. k \<noteq> o_itemId order \<longrightarrow> fmlookup (inventory s') k = fmlookup (inventory s) k) \<and>
           orderQueue s' = rest \<and>
           transactionHistory s' =
             mkTransaction now ''Order Processed'' (o_itemId order)
               (''Processed order #'' @ to_string (o_orderId order) @ '' for '' @
                to_string (o_quantity order) @ '' units'') # transactionHistory s \<and>
           cout s' = cout s @ ''Order #'' @ to_string (o_orderId order) @
                       '' processed successfully!\<newline>''"
  using assms by (simp add: processNextOrder_def findItem_def addTransaction_def Let_def)

text \<open>Three bolts ordered, ten in stock: seven are left.\<close>

theorem processNextOrder_fulfils_front_order_witness:
  "\<exists>s'. processNextOrder fixed2 2000 (stocked\<lparr>orderQueue := [order3]\<rparr>) = Inr s' \<and>
      map_option i_quantity (fmlookup (inventory s') 5) = Some 7 \<and>
      fmlookup (inventory s') 2 = Some anvil \<and>
      orderQueue s' = [] \<and>
      map t_action (transactionHistory s') = [''Order Processed'']"
proof -
  have q: "orderQueue (stocked\<lparr>orderQueue := [order3]\<rparr>) = order3 # []"
    by simp
  have found: "fmlookup (inventory (stocked\<lparr>orderQueue := [order3]\<rparr>)) (o_itemId order3) = Some bolt"
    by (simp add: stocked_def fresh_def order3_def mkOrder_def)
  have enough: "o_quantity order3 \<le> i_quantity bolt"
    by (simp add: bolt_def order3_def mkOrder_def)
  have range: "in_int_range (i_quantity bolt - o_quantity order3)"
    by (simp add: bolt_def order3_def mkOrder_def in_int_range_def INT_MIN_def INT_MAX_def)
  from processNextOrder_fulfils_front_order [OF q found enough range, of fixed2 2000]
  obtain s' where s': "processNextOrder fixed2 2000 (stocked\<lparr>orderQueue := [order3]\<rparr>) = Inr s'"
    "fmlookup (inventory s') (o_itemId order3) = Some (bolt\<lparr>i_quantity := i_quantity bolt - o_quantity order3\<rparr>)"
    "\<forall>k. k \<noteq> o_itemId order3 \<longrightarrow> fmlookup (inventory s') k = fmlookup (inventory (stocked\<lparr>orderQueue := [order3]\<rparr>)) k"
    "orderQueue s' = []"
    "transactionHistory s' =
             mkTransaction 2000 ''Order Processed'' (o_itemId order3)
               (''Processed order #'' @ to_string (o_orderId order3) @ '' for '' @
                to_string (o_quantity order3) @ '' units'') # transactionHistory (stocked\<lparr>orderQueue := [order3]\<rparr>)"
    by blast
  from s'(3) have "fmlookup (inventory s') 2 = Some anvil"
    by (simp add: order3_def mkOrder_def stocked_def fresh_def)
  with s' show ?thesis
    by (simp add: order3_def mkOrder_def stocked_def fresh_def bolt_def mkTransaction_def)
qed

subsection \<open>The transaction history\<close>

lemma removeItem_keeps_log: "transactionHistory (snd (removeItem fmt itemId s)) = transactionHistory s"
  by (simp add: removeItem_def)

lemma updateItem_keeps_log: "transactionHistory (snd (updateItem fmt item s)) = transactionHistory s"
  by (simp add: updateItem_def)

lemma edit_keeps_log:
  assumes "is_catalog_edit c"
  shows "\<exists>t. exec fmt srt c s = Inr t \<and> transactionHistory t = transactionHistory s"
  using assms by (cases c) (simp_all add: removeItem_keeps_log updateItem_keeps_log)

lemma edits_keep_log:
  assumes "\<forall>c \<in> set cs. is_catalog_edit c"
  shows "\<exists>t. run fmt srt cs s = Inr t \<and> transactionHistory t = transactionHistory s"
  using assms
proof (induction cs arbitrary: s)
  case Nil
  then show ?case by simp
next
  case (Cons c cs)
  then obtain t where t: "exec fmt srt c s = Inr t" "transactionHistory t = transactionHistory s"
    using edit_keeps_log [of c fmt srt s] by auto
  from Cons obtain u where "run fmt srt cs t = Inr u" "transactionHistory u = transactionHistory t"
    by fastforce
  with t show ?case by simp
qed

lemma addItem_log:
  assumes "addItem fmt now item s = Inr t"
  shows "transactionHistory t =
           mkTransaction now ''Add'' (i_id item)
             (''Added '' @ i_name item @ '' to category '' @ i_category item) # transactionHistory s"
  using assms
  by (auto simp: addItem_def Let_def addTransaction_def recordItem_def split: if_splits)

lemma createOrder_log:
  assumes "createOrder tOrder tLog itemId quantity s = Inr t"
    and "transactionHistory t \<noteq> transactionHistory s"
  shows "findItem itemId s \<noteq> None \<and> 0 < quantity \<and>
         transactionHistory t =
           mkTransaction tLog ''Order Created'' itemId
             (''Ordered '' @ to_string quantity @ '' units'') # transactionHistory s"
  using assms
  by (auto simp: createOrder_def Let_def addTransaction_def split: if_splits)

lemma processNextOrder_log:
  assumes "processNextOrder fmt now s = Inr t"
    and "transactionHistory t \<noteq> transactionHistory s"
  shows "\<exists>order rest item. orderQueue s = order # rest \<and>
           findItem (o_itemId order) s = Some item \<and> o_quantity order \<le> i_quantity item \<and>
           transactionHistory t =
             mkTransaction now ''Order Processed'' (o_itemId order)
               (''Processed order #'' @ to_string (o_orderId order) @ '' for '' @
                to_string (o_quantity order) @ '' units'') # transactionHistory s"
  using assms
  by (auto simp: processNextOrder_def Let_def addTransaction_def findItem_def
           split: list.splits option.splits if_splits)

text \<open>
  Claim C10. A sequence of \<^verbatim>\<open>removeItem\<close> and \<^verbatim>\<open>updateItem\<close> calls, whether they find
  their item or not, runs to its end and leaves the transaction history as it was. And a
  call that changes the history is an \<^verbatim>\<open>addItem\<close>, a \<^verbatim>\<open>createOrder\<close> with an item
  of the catalogue and a positive quantity, or a \<^verbatim>\<open>processNextOrder\<close> whose front order
  can be served; it puts exactly one transaction on top.
\<close>

theorem removeItem_updateItem_never_log:
  "((\<forall>c \<in> set cs. is_catalog_edit c) \<longrightarrow>
      (\<exists>t. run fmt srt cs s = Inr t \<and> transactionHistory t = transactionHistory s)) \<and>
   (exec fmt srt c s = Inr t \<and> transactionHistory t \<noteq> transactionHistory s \<longrightarrow>
      (\<exists>now item. c = AddItem now item \<and>
         transactionHistory t =
           mkTransaction now ''Add'' (i_id item)
             (''Added '' @ i_name item @ '' to category '' @ i_category item) # transactionHistory s) \<or>
      (\<exists>tOrder tLog itemId quantity. c = CreateOrder tOrder tLog itemId quantity \<and>
         findItem itemId s \<noteq> None \<and> 0 < quantity \<and>
         transactionHistory t =
           mkTransaction tLog ''Order Created'' itemId
             (''Ordered '' @ to_string quantity @ '' units'') # transactionHistory s) \<or>
      (\<exists>now order rest item. c = ProcessNextOrder now \<and> orderQueue s = order # rest \<and>
         findItem (o_itemId order) s = Some item \<and> o_quantity order \<le> i_quantity item \<and>
         transactionHistory t =
           mkTransaction now ''Order Processed'' (o_itemId order)
             (''Processed order #'' @ to_string (o_orderId order) @ '' for '' @
              to_string (o_quantity order) @ '' units'') # transactionHistory s))"
proof (intro conjI impI)
  assume "\<forall>c \<in> set cs. is_catalog_edit c"
  then show "\<exists>t. run fmt srt cs s = Inr t \<and> transactionHistory t = transactionHistory s"
    by (rule edits_keep_log)
next
  assume a: "exec fmt srt c s = Inr t \<and> transactionHistory t \<noteq> transactionHistory s"
  show "(\<exists>now item. c = AddItem now item \<and>
         transactionHistory t =
           mkTransaction now ''Add'' (i_id item)
             (''Added '' @ i_name item @ '' to category '' @ i_category item) # transactionHistory s) \<or>
      (\<exists>tOrder tLog itemId quantity. c = CreateOrder tOrder tLog itemId quantity \<and>
         findItem itemId s \<noteq> None \<and> 0 < quantity \<and>
         transactionHistory t =
           mkTransaction tLog ''Order Created'' itemId
             (''Ordered '' @ to_string quantity @ '' units'') # transactionHistory s) \<or>
      (\<exists>now order rest item. c = ProcessNextOrder now \<and> orderQueue s = order # rest \<and>
         findItem (o_itemId order) s = Some item \<and> o_quantity order \<le> i_quantity item \<and>
         transactionHistory t =
           mkTransaction now ''Order Processed'' (o_itemId order)
             (''Processed order #'' @ to_string (o_orderId order) @ '' for '' @
              to_string (o_quantity order) @ '' units'') # transactionHistory s)"
  proof (cases c)
    case (AddItem now item)
    with a show ?thesis using addItem_log [of fmt now item s t] by simp
  next
    case (RemoveItem itemId)
    with a show ?thesis using removeItem_keeps_log [of fmt itemId s] by auto
  next
    case (UpdateItem item)
    with a show ?thesis using updateItem_keeps_log [of fmt item s] by auto
  next
    case (CreateOrder tOrder tLog itemId quantity)
    with a show ?thesis using createOrder_log [of tOrder tLog itemId quantity s t] by simp
  next
    case (ProcessNextOrder now)
    with a show ?thesis using processNextOrder_log [of fmt now s t] by simp
  next
    case SortByName
    with a show ?thesis by (auto simp: sortByName_def)
  next
    case SortByQuantity
    with a show ?thesis by (auto simp: sortByQuantity_def)
  next
    case DisplayOrderQueue
    with a show ?thesis by (auto simp: displayOrderQueue_def split: if_splits)
  next
    case (Display msg)
    with a show ?thesis by auto
  qed
qed

text \<open>
  Two removals and two updates, one of each on an absent item, keep the one entry of the
  history; a valid \<^verbatim>\<open>createOrder\<close> adds one.
\<close>

theorem removeItem_updateItem_never_log_witness:
  "(\<exists>t. run fixed2 insertion_sort
          [RemoveItem 2, UpdateItem (bolt\<lparr>i_quantity := 4\<rparr>), RemoveItem 9, UpdateItem washer] logged = Inr t \<and>
        transactionHistory t = transactionHistory logged) \<and>
   (\<exists>t. exec fixed2 insertion_sort (CreateOrder 1000 1001 5 3) logged = Inr t \<and>
        transactionHistory t =
          mkTransaction 1001 ''Order Created'' 5 ''Ordered 3 units'' # transactionHistory logged)"
proof -
  have edits: "\<forall>c \<in> set [RemoveItem 2, UpdateItem (bolt\<lparr>i_quantity := 4\<rparr>), RemoveItem 9, UpdateItem washer].
                 is_catalog_edit c"
    by simp
  obtain t where t: "exec fixed2 insertion_sort (CreateOrder 1000 1001 5 3) logged = Inr t"
    "transactionHistory t \<noteq> transactionHistory logged"
    by (simp add: createOrder_def findItem_def logged_def stocked_def fresh_def INT_MAX_def
                  addTransaction_def Let_def)
  from removeItem_updateItem_never_log
         [of "[RemoveItem 2, UpdateItem (bolt\<lparr>i_quantity := 4\<rparr>), RemoveItem 9, UpdateItem washer]"
             fixed2 insertion_sort logged "CreateOrder 1000 1001 5 3" t] edits t
  show ?thesis
    by (simp add: to_string_def digits.simps digit_char_def)
qed

subsection \<open>The order queue\<close>

lemma load_line_orders:
  assumes "load_line stod line s = Inr t"
  shows "orderQueue t = orderQueue s \<and> nextOrderId t = nextOrderId s"
  using assms
  by (auto simp: load_line_def Let_def split: prod.splits sum.splits if_splits)

lemma load_lines_orders:
  assumes "load_lines stod ls s = Inr t"
  shows "orderQueue t = orderQueue s \<and> nextOrderId t = nextOrderId s"
  using assms
proof (induction ls arbitrary: s)
  case Nil
  then show ?case by simp
next
  case (Cons l ls)
  then obtain u where u: "load_line stod l s = Inr u" "load_lines stod ls u = Inr t"
    by (auto split: sum.splits)
  from load_line_orders [OF u(1)] Cons.IH [OF u(2)] show ?case by simp
qed

lemma ctor_orders:
  assumes "WarehouseSystem_ctor stod fname file out = Inr s"
  shows "orderQueue s = [] \<and> nextOrderId s = 1"
proof -
  from assms obtain u where
    u: "loadFromFile stod
          \<lparr>inventory = fmempty, filename = fname, nextId = 1, transactionHistory = [],
           orderQueue = [], categoryRoot = CategoryNode ''Root'' [] [], nextOrderId = 1,
           disk = file, cout = out\<rparr> = Inr u"
    and s: "s = initializeCategoryTree u"
    by (auto simp: WarehouseSystem_ctor_def split: sum.splits)
  from u have "orderQueue u = [] \<and> nextOrderId u = 1"
    by (auto simp: loadFromFile_def split: option.splits dest: load_lines_orders)
  with s show ?thesis by (simp add: initializeCategoryTree_def)
qed

lemma exec_queue:
  assumes "exec fmt srt c s = Inr t"
    and "order \<in> set (orderQueue t)"
  shows "order \<in> set (orderQueue s) \<or>
         (\<exists>tOrder tLog itemId quantity. c = CreateOrder tOrder tLog itemId quantity \<and>
            order = mkOrder tOrder (nextOrderId s) itemId quantity)"
proof (cases c)
  case (AddItem now item)
  with assms show ?thesis
    by (auto simp: addItem_def Let_def addTransaction_def recordItem_def split: if_splits)
next
  case (RemoveItem itemId)
  with assms show ?thesis by (auto simp: removeItem_def split: if_splits)
next
  case (UpdateItem item)
  with assms show ?thesis by (auto simp: updateItem_def split: if_splits)
next
  case (CreateOrder tOrder tLog itemId quantity)
  with assms show ?thesis
    by (auto simp: createOrder_def Let_def addTransaction_def split: if_splits)
next
  case (ProcessNextOrder now)
  with assms show ?thesis
    by (auto simp: processNextOrder_def Let_def addTransaction_def
             split: list.splits option.splits if_splits)
next
  case SortByName
  with assms show ?thesis by (auto simp: sortByName_def)
next
  case SortByQuantity
  with assms show ?thesis by (auto simp: sortByQuantity_def)
next
  case DisplayOrderQueue
  with assms show ?thesis by (auto simp: displayOrderQueue_def split: if_splits)
next
  case (Display msg)
  with assms show ?thesis by auto
qed

lemma mkOrder_pending: "o_status (mkOrder now orderId itemId quantity) = ''Pending''"
  by (simp add: mkOrder_def)

lemma exec_pending:
  assumes "exec fmt srt c s = Inr t"
    and "\<forall>order \<in> set (orderQueue s). o_status order = ''Pending''"
  shows "\<forall>order \<in> set (orderQueue t). o_status order = ''Pending''"
proof
  fix order
  assume "order \<in> set (orderQueue t)"
  from exec_queue [OF assms(1) this] assms(2) show "o_status order = ''Pending''"
    by (auto simp: mkOrder_pending)
qed

lemma run_pending:
  assumes "run fmt srt cs s = Inr t"
    and "\<forall>order \<in> set (orderQueue s). o_status order = ''Pending''"
  shows "\<forall>order \<in> set (orderQueue t). o_status order = ''Pending''"
  using assms
proof (induction cs arbitrary: s)
  case Nil
  then show ?case by simp
next
  case (Cons c cs)
  then obtain u where u: "exec fmt srt c s = Inr u" "run fmt srt cs u = Inr t"
    by (auto split: sum.splits)
  from exec_pending [OF u(1) Cons.prems(2)] Cons.IH [OF u(2)] show ?case by simp
qed

text \<open>
  Claim C9. In every state reached from the constructor by calls of the public members,
  each order in the queue has the status "Pending". No call changes an order: an order in
  the queue after a call was in the queue before it, or it is the order \<^verbatim>\<open>createOrder\<close>
  has just constructed, whose status is "Pending". An order that is served leaves the
  queue and no order with another status ever enters it.
\<close>

theorem queued_orders_stay_pending:
  "(WarehouseSystem_ctor stod fname file out = Inr s0 \<and> run fmt srt cs s0 = Inr s \<longrightarrow>
      (\<forall>order \<in> set (orderQueue s). o_status order = ''Pending'')) \<and>
   (exec fmt srt c s = Inr t \<longrightarrow>
      (\<forall>order \<in> set (orderQueue t).
         order \<in> set (orderQueue s) \<or>
         (\<exists>tOrder tLog itemId quantity. c = CreateOrder tOrder tLog itemId quantity \<and>
            order = mkOrder tOrder (nextOrderId s) itemId quantity \<and>
            o_status order = ''Pending'')))"
proof (intro conjI impI)
  assume a: "WarehouseSystem_ctor stod fname file out = Inr s0 \<and> run fmt srt cs s0 = Inr s"
  then have "WarehouseSystem_ctor stod fname file out = Inr s0"
    by simp
  from ctor_orders [OF this] have "orderQueue s0 = []"
    by simp
  then have "\<forall>order \<in> set (orderQueue s0). o_status order = ''Pending''"
    by simp
  with a show "\<forall>order \<in> set (orderQueue s). o_status order = ''Pending''"
    by (simp add: run_pending [of fmt srt cs s0 s])
next
  assume e: "exec fmt srt c s = Inr t"
  show "\<forall>order \<in> set (orderQueue t).
         order \<in> set (orderQueue s) \<or>
         (\<exists>tOrder tLog itemId quantity. c = CreateOrder tOrder tLog itemId quantity \<and>
            order = mkOrder tOrder (nextOrderId s) itemId quantity \<and>
            o_status order = ''Pending'')"
  proof
    fix order
    assume "order \<in> set (orderQueue t)"
    from exec_queue [OF e this]
    show "order \<in> set (orderQueue s) \<or>
         (\<exists>tOrder tLog itemId quantity. c = CreateOrder tOrder tLog itemId quantity \<and>
            order = mkOrder tOrder (nextOrderId s) itemId quantity \<and>
            o_status order = ''Pending'')"
      by (auto simp: mkOrder_pending)
  qed
qed


text \<open>The example session ends with the order for fifty bolts alone in the queue.\<close>

lemma ctor_fresh: "WarehouseSystem_ctor stod_decimal ''inventory.csv'' no_file [] = Inr fresh"
  by (simp add: WarehouseSystem_ctor_def loadFromFile_def ifstream_text_def no_file_def
        initializeCategoryTree_def fresh_def)

lemma session_runs:
  "case run fixed2 insertion_sort session fresh of
     Inl e \<Rightarrow> False
   | Inr s \<Rightarrow> map o_orderId (orderQueue s) = [1] \<and> map o_quantity (orderQueue s) = [50] \<and>
              map_option i_quantity (fmlookup (inventory s) 5) = Some 7"
  by code_simp

theorem queued_orders_stay_pending_witness:
  "WarehouseSystem_ctor stod_decimal ''inventory.csv'' no_file [] = Inr fresh \<and>
   (\<exists>s. run fixed2 insertion_sort session fresh = Inr s \<and>
        map o_orderId (orderQueue s) = [1] \<and>
        list_all (\<lambda>order. o_status order = ''Pending'') (orderQueue s))"
proof -
  from session_runs obtain s where
    s: "run fixed2 insertion_sort session fresh = Inr s" "map o_orderId (orderQueue s) = [1]"
    by (auto split: sum.splits)
  from queued_orders_stay_pending [of stod_decimal "''inventory.csv''" no_file "[]" fresh fixed2
         insertion_sort session s] ctor_fresh s(1)
  have "list_all (\<lambda>order. o_status order = ''Pending'') (orderQueue s)"
    by (simp add: list_all_iff)
  with s ctor_fresh show ?thesis by auto
qed

subsection \<open>createOrder\<close>

lemma createOrder_invalid:
  assumes "findItem itemId s = None \<or> quantity \<le> 0"
  shows "createOrder tOrder tLog itemId quantity s =
           Inr (s\<lparr>cout := cout s @ ''Invalid item ID or quantity!\<newline>''\<rparr>)"
  using assms by (auto simp: createOrder_def)

lemma createOrder_valid:
  assumes "findItem itemId s \<noteq> None" and "0 < quantity" and "nextOrderId s < INT_MAX"
  shows "createOrder tOrder tLog itemId quantity s =
           Inr (s\<lparr>orderQueue := orderQueue s @ [mkOrder tOrder (nextOrderId s) itemId quantity],
                  nextOrderId := nextOrderId s + 1,
                  transactionHistory :=
                    mkTransaction tLog ''Order Created'' itemId
                      (''Ordered '' @ to_string quantity @ '' units'') # transactionHistory s,
                  cout := cout s @ ''Order created successfully!\<newline>''\<rparr>)"
  using assms by (simp add: createOrder_def Let_def addTransaction_def)

lemma createOrder_valid_result:
  assumes "findItem itemId s \<noteq> None" and "0 < quantity"
    and "createOrder tOrder tLog itemId quantity s = Inr t"
  shows "orderQueue t = orderQueue s @ [mkOrder tOrder (nextOrderId s) itemId quantity] \<and>
         nextOrderId t = nextOrderId s + 1"
  using assms by (auto simp: createOrder_def Let_def addTransaction_def split: if_splits)

lemma exec_nextOrderId:
  assumes "exec fmt srt c s = Inr t"
  shows "nextOrderId s \<le> nextOrderId t"
proof (cases c)
  case (AddItem now item)
  with assms show ?thesis
    by (auto simp: addItem_def Let_def addTransaction_def recordItem_def split: if_splits)
next
  case (RemoveItem itemId)
  with assms show ?thesis by (auto simp: removeItem_def split: if_splits)
next
  case (UpdateItem item)
  with assms show ?thesis by (auto simp: updateItem_def split: if_splits)
next
  case (CreateOrder tOrder tLog itemId quantity)
  with assms show ?thesis
    by (auto simp: createOrder_def Let_def addTransaction_def split: if_splits)
next
  case (ProcessNextOrder now)
  with assms show ?thesis
    by (auto simp: processNextOrder_def Let_def addTransaction_def
             split: list.splits option.splits if_splits)
next
  case SortByName
  with assms show ?thesis by (auto simp: sortByName_def)
next
  case SortByQuantity
  with assms show ?thesis by (auto simp: sortByQuantity_def)
next
  case DisplayOrderQueue
  with assms show ?thesis by (auto simp: displayOrderQueue_def split: if_splits)
next
  case (Display msg)
  with assms show ?thesis by auto
qed

lemma run_nextOrderId:
  assumes "run fmt srt cs s = Inr t"
  shows "nextOrderId s \<le> nextOrderId t"
  using assms
proof (induction cs arbitrary: s)
  case Nil
  then show ?case by simp
next
  case (Cons c cs)
  then obtain u where u: "exec fmt srt c s = Inr u" "run fmt srt cs u = Inr t"
    by (auto split: sum.splits)
  from exec_nextOrderId [OF u(1)] Cons.IH [OF u(2)] show ?case by simp
qed

lemma exec_ids_below:
  assumes "exec fmt srt c s = Inr t"
    and "\<forall>order \<in> set (orderQueue s). o_orderId order < nextOrderId s"
  shows "\<forall>order \<in> set (orderQueue t). o_orderId order < nextOrderId t"
proof
  fix order
  assume "order \<in> set (orderQueue t)"
  from exec_queue [OF assms(1) this] show "o_orderId order < nextOrderId t"
  proof
    assume "order \<in> set (orderQueue s)"
    with assms(2) exec_nextOrderId [OF assms(1)] show ?thesis by fastforce
  next
    assume "\<exists>tOrder tLog itemId quantity. c = CreateOrder tOrder tLog itemId quantity \<and>
              order = mkOrder tOrder (nextOrderId s) itemId quantity"
    then obtain tOrder tLog itemId quantity where
      c: "c = CreateOrder tOrder tLog itemId quantity"
      and o: "order = mkOrder tOrder (nextOrderId s) itemId quantity"
      by blast
    show ?thesis
    proof (cases "findItem itemId s \<noteq> None \<and> 0 < quantity")
      case True
      with assms(1) c createOrder_valid_result [of itemId s quantity tOrder tLog t]
      have "nextOrderId t = nextOrderId s + 1" by simp
      with o show ?thesis by (simp add: mkOrder_def)
    next
      case False
      with assms(1) c have "orderQueue t = orderQueue s"
        by (auto simp: createOrder_def)
      with \<open>order \<in> set (orderQueue t)\<close> assms(2) exec_nextOrderId [OF assms(1)]
      show ?thesis by fastforce
    qed
  qed
qed

lemma run_ids_below:
  assumes "run fmt srt cs s = Inr t"
    and "\<forall>order \<in> set (orderQueue s). o_orderId order < nextOrderId s"
  shows "\<forall>order \<in> set (orderQueue t). o_orderId order < nextOrderId t"
  using assms
proof (induction cs arbitrary: s)
  case Nil
  then show ?case by simp
next
  case (Cons c cs)
  then obtain u where u: "exec fmt srt c s = Inr u" "run fmt srt cs u = Inr t"
    by (auto split: sum.splits)
  from exec_ids_below [OF u(1) Cons.prems(2)] Cons.IH [OF u(2)] show ?case by simp
qed

text \<open>
  Claim C4. \<^verbatim>\<open>createOrder(itemId, quantity)\<close> prints the invalid order message and
  changes nothing else exactly when the catalogue has no item \<open>itemId\<close> or the quantity is
  not positive. Otherwise, as long as the order counter can be incremented, it appends
  an order carrying the counter's value to the back of the queue, increments the counter,
  puts an "Order Created" transaction on the history and prints the success message.
  In every state reached from the constructor the identifiers in the queue are below the
  counter, so the new identifier is fresh; and of two orders created one after the other,
  with any calls between them, the later one has the strictly greater identifier. The
  entry on top of the history after a successful call has the action "Order Created",
  the item identifier, the text "Ordered n units" and the clock reading.
\<close>

theorem createOrder_validates_and_issues_increasing_ids:
  "(createOrder tOrder tLog itemId quantity s =
      Inr (s\<lparr>cout := cout s @ ''Invalid item ID or quantity!\<newline>''\<rparr>) \<longleftrightarrow>
    findItem itemId s = None \<or> quantity \<le> 0) \<and>
   (findItem itemId s \<noteq> None \<and> 0 < quantity \<and> nextOrderId s < INT_MAX \<longrightarrow>
      createOrder tOrder tLog itemId quantity s =
        Inr (s\<lparr>orderQueue := orderQueue s @ [mkOrder tOrder (nextOrderId s) itemId quantity],
               nextOrderId := nextOrderId s + 1,
               transactionHistory :=
                 mkTransaction tLog ''Order Created'' itemId
                   (''Ordered '' @ to_string quantity @ '' units'') # transactionHistory s,
               cout := cout s @ ''Order created successfully!\<newline>''\<rparr>)) \<and>
   (WarehouseSystem_ctor stod fname stored out = Inr s0 \<and> run fmt srt cs s0 = Inr s \<longrightarrow>
      (\<forall>order \<in> set (orderQueue s). o_orderId order < nextOrderId s)) \<and>
   (findItem itemId s \<noteq> None \<and> 0 < quantity \<and>
    createOrder tOrder tLog itemId quantity s = Inr t \<and>
    run fmt srt cs' t = Inr u \<and>
    findItem itemId' u \<noteq> None \<and> 0 < quantity' \<and>
    createOrder tOrder' tLog' itemId' quantity' u = Inr v \<longrightarrow>
      o_orderId (last (orderQueue t)) = nextOrderId s \<and>
      o_orderId (last (orderQueue v)) = nextOrderId u \<and>
      nextOrderId s < nextOrderId u) \<and>
   (findItem itemId s \<noteq> None \<and> 0 < quantity \<and>
    createOrder tOrder tLog itemId quantity s = Inr t \<longrightarrow>
      (\<exists>entry. transactionHistory t = entry # transactionHistory s \<and>
         t_action entry = ''Order Created'' \<and> t_itemId entry = itemId \<and>
         t_details entry = ''Ordered '' @ to_string quantity @ '' units'' \<and>
         t_timestamp entry = tLog) \<and>
      t_action (hd (transactionHistory t)) = ''Order Created'')"
proof -
  have invalid: "createOrder tOrder tLog itemId quantity s =
      Inr (s\<lparr>cout := cout s @ ''Invalid item ID or quantity!\<newline>''\<rparr>) \<longleftrightarrow>
    findItem itemId s = None \<or> quantity \<le> 0"
  proof
    assume eq: "createOrder tOrder tLog itemId quantity s =
      Inr (s\<lparr>cout := cout s @ ''Invalid item ID or quantity!\<newline>''\<rparr>)"
    show "findItem itemId s = None \<or> quantity \<le> 0"
    proof (rule ccontr)
      assume "\<not> (findItem itemId s = None \<or> quantity \<le> 0)"
      then have "findItem itemId s \<noteq> None" "0 < quantity" by auto
      from createOrder_valid_result [OF this eq] show False by simp
    qed
  next
    assume "findItem itemId s = None \<or> quantity \<le> 0"
    then show "createOrder tOrder tLog itemId quantity s =
      Inr (s\<lparr>cout := cout s @ ''Invalid item ID or quantity!\<newline>''\<rparr>)"
      by (rule createOrder_invalid)
  qed
  have valid: "findItem itemId s \<noteq> None \<and> 0 < quantity \<and> nextOrderId s < INT_MAX \<longrightarrow>
      createOrder tOrder tLog itemId quantity s =
        Inr (s\<lparr>orderQueue := orderQueue s @ [mkOrder tOrder (nextOrderId s) itemId quantity],
               nextOrderId := nextOrderId s + 1,
               transactionHistory :=
                 mkTransaction tLog ''Order Created'' itemId
                   (''Ordered '' @ to_string quantity @ '' units'') # transactionHistory s,
               cout := cout s @ ''Order created successfully!\<newline>''\<rparr>)"
    by (simp add: createOrder_valid)
  have below: "WarehouseSystem_ctor stod fname stored out = Inr s0 \<and> run fmt srt cs s0 = Inr s \<longrightarrow>
      (\<forall>order \<in> set (orderQueue s). o_orderId order < nextOrderId s)"
  proof
    assume a: "WarehouseSystem_ctor stod fname stored out = Inr s0 \<and> run fmt srt cs s0 = Inr s"
    then have "WarehouseSystem_ctor stod fname stored out = Inr s0"
      by simp
    from ctor_orders [OF this]
    have "\<forall>order \<in> set (orderQueue s0). o_orderId order < nextOrderId s0"
      by simp
    with a show "\<forall>order \<in> set (orderQueue s). o_orderId order < nextOrderId s"
      by (simp add: run_ids_below [of fmt srt cs s0 s])
  qed
  have increasing: "findItem itemId s \<noteq> None \<and> 0 < quantity \<and>
    createOrder tOrder tLog itemId quantity s = Inr t \<and>
    run fmt srt cs' t = Inr u \<and>
    findItem itemId' u \<noteq> None \<and> 0 < quantity' \<and>
    createOrder tOrder' tLog' itemId' quantity' u = Inr v \<longrightarrow>
      o_orderId (last (orderQueue t)) = nextOrderId s \<and>
      o_orderId (last (orderQueue v)) = nextOrderId u \<and>
      nextOrderId s < nextOrderId u"
  proof
    assume a: "findItem itemId s \<noteq> None \<and> 0 < quantity \<and>
      createOrder tOrder tLog itemId quantity s = Inr t \<and>
      run fmt srt cs' t = Inr u \<and>
      findItem itemId' u \<noteq> None \<and> 0 < quantity' \<and>
      createOrder tOrder' tLog' itemId' quantity' u = Inr v"
    then have first: "orderQueue t = orderQueue s @ [mkOrder tOrder (nextOrderId s) itemId quantity]"
      "nextOrderId t = nextOrderId s + 1"
      using createOrder_valid_result [of itemId s quantity tOrder tLog t] by simp_all
    from a have second: "orderQueue v = orderQueue u @ [mkOrder tOrder' (nextOrderId u) itemId' quantity']"
      using createOrder_valid_result [of itemId' u quantity' tOrder' tLog' v] by simp
    from a have "nextOrderId t \<le> nextOrderId u"
      using run_nextOrderId [of fmt srt cs' t u] by simp
    with first second
    show "o_orderId (last (orderQueue t)) = nextOrderId s \<and>
        o_orderId (last (orderQueue v)) = nextOrderId u \<and>
        nextOrderId s < nextOrderId u"
      by (simp add: mkOrder_def)
  qed
  have recorded: "findItem itemId s \<noteq> None \<and> 0 < quantity \<and>
    createOrder tOrder tLog itemId quantity s = Inr t \<longrightarrow>
      (\<exists>entry. transactionHistory t = entry # transactionHistory s \<and>
         t_action entry = ''Order Created'' \<and> t_itemId entry = itemId \<and>
         t_details entry = ''Ordered '' @ to_string quantity @ '' units'' \<and>
         t_timestamp entry = tLog) \<and>
      t_action (hd (transactionHistory t)) = ''Order Created''"
    by (auto simp: createOrder_def Let_def addTransaction_def mkTransaction_def split: if_splits)
  show ?thesis
    by (rule conjI [OF invalid conjI [OF valid conjI [OF below conjI [OF increasing recorded]]]])
qed

text \<open>
  An order is created in the stocked engine, found short of stock and requeued, the
  washer is added and an order for it is created: the identifiers are 1 and 2.
\<close>

lemma later_orders_run:
  "\<not> isl (createOrder 200 201 5 50 stocked) \<and>
   \<not> isl (run fixed2 insertion_sort [ProcessNextOrder 400, AddItem 450 washer]
            (projr (createOrder 200 201 5 50 stocked))) \<and>
   \<not> isl (createOrder 300 301 7 1
            (projr (run fixed2 insertion_sort [ProcessNextOrder 400, AddItem 450 washer]
                      (projr (createOrder 200 201 5 50 stocked))))) \<and>
   findItem 7 (projr (run fixed2 insertion_sort [ProcessNextOrder 400, AddItem 450 washer]
                        (projr (createOrder 200 201 5 50 stocked)))) \<noteq> None \<and>
   map o_orderId
     (orderQueue (projr (createOrder 300 301 7 1
        (projr (run fixed2 insertion_sort [ProcessNextOrder 400, AddItem 450 washer]
                  (projr (createOrder 200 201 5 50 stocked))))))) = [1, 2]"
  by code_simp

theorem createOrder_validates_and_issues_increasing_ids_witness:
  "findItem 9 stocked = None \<and>
   createOrder 200 201 9 1 stocked =
     Inr (stocked\<lparr>cout := cout stocked @ ''Invalid item ID or quantity!\<newline>''\<rparr>) \<and>
   createOrder 200 201 5 0 stocked =
     Inr (stocked\<lparr>cout := cout stocked @ ''Invalid item ID or quantity!\<newline>''\<rparr>) \<and>
   findItem 5 stocked \<noteq> None \<and>
   createOrder 200 201 5 50 stocked =
     Inr (stocked\<lparr>orderQueue := [mkOrder 200 1 5 50], nextOrderId := 2,
                    transactionHistory := [mkTransaction 201 ''Order Created'' 5 ''Ordered 50 units''],
                    cout := ''Order created successfully!\<newline>''\<rparr>) \<and>
   (\<exists>s. run fixed2 insertion_sort session fresh = Inr s \<and>
        list_all (\<lambda>order. o_orderId order < nextOrderId s) (orderQueue s) \<and>
        map o_orderId (orderQueue s) = [1]) \<and>
   (\<exists>t u v. createOrder 200 201 5 50 stocked = Inr t \<and>
        run fixed2 insertion_sort [ProcessNextOrder 400, AddItem 450 washer] t = Inr u \<and>
        createOrder 300 301 7 1 u = Inr v \<and>
        o_orderId (last (orderQueue t)) < o_orderId (last (orderQueue v)) \<and>
        map o_orderId (orderQueue v) = [1, 2] \<and>
        t_action (hd (transactionHistory t)) = ''Order Created'' \<and>
        t_itemId (hd (transactionHistory t)) = 5 \<and>
        t_action (hd (transactionHistory v)) = ''Order Created'')"
proof -
  have absent: "findItem 9 stocked = None" and present: "findItem 5 stocked \<noteq> None"
    and counter: "nextOrderId stocked < INT_MAX"
    by (simp_all add: findItem_def stocked_def fresh_def INT_MAX_def)
  note spec = createOrder_validates_and_issues_increasing_ids
  from spec [where tOrder = 200 and tLog = 201 and itemId = 9 and quantity = 1 and s = stocked] absent
  have c1: "createOrder 200 201 9 1 stocked =
     Inr (stocked\<lparr>cout := cout stocked @ ''Invalid item ID or quantity!\<newline>''\<rparr>)"
    by simp
  from spec [where tOrder = 200 and tLog = 201 and itemId = 5 and quantity = 0 and s = stocked]
  have c2: "createOrder 200 201 5 0 stocked =
     Inr (stocked\<lparr>cout := cout stocked @ ''Invalid item ID or quantity!\<newline>''\<rparr>)"
    by simp
  from spec [where tOrder = 200 and tLog = 201 and itemId = 5 and quantity = 50 and s = stocked]
    present counter
  have c3: "createOrder 200 201 5 50 stocked =
     Inr (stocked\<lparr>orderQueue := [mkOrder 200 1 5 50], nextOrderId := 2,
                    transactionHistory := [mkTransaction 201 ''Order Created'' 5 ''Ordered 50 units''],
                    cout := ''Order created successfully!\<newline>''\<rparr>)"
    by (simp add: stocked_def fresh_def to_string_def digits.simps digit_char_def)
  from session_runs obtain s where
    s: "run fixed2 insertion_sort session fresh = Inr s" "map o_orderId (orderQueue s) = [1]"
    by (auto split: sum.splits)
  from spec [where s = s and stod = stod_decimal and fname = "''inventory.csv''" and stored = no_file
               and out = "[]" and ?s0.0 = fresh and fmt = fixed2 and srt = insertion_sort
               and cs = session]
    ctor_fresh s(1)
  have c4: "list_all (\<lambda>order. o_orderId order < nextOrderId s) (orderQueue s)"
    by (simp add: list_all_iff)
  define t where "t = projr (createOrder 200 201 5 50 stocked)"
  define u where "u = projr (run fixed2 insertion_sort [ProcessNextOrder 400, AddItem 450 washer] t)"
  define v where "v = projr (createOrder 300 301 7 1 u)"
  from later_orders_run have
    tuv: "createOrder 200 201 5 50 stocked = Inr t"
      "run fixed2 insertion_sort [ProcessNextOrder 400, AddItem 450 washer] t = Inr u"
      "createOrder 300 301 7 1 u = Inr v" "findItem 7 u \<noteq> None"
      "map o_orderId (orderQueue v) = [1, 2]"
    unfolding t_def u_def v_def by simp_all
  from spec [where tOrder = 200 and tLog = 201 and itemId = 5 and quantity = 50 and s = stocked
               and t = t and cs' = "[ProcessNextOrder 400, AddItem 450 washer]" and u = u
               and itemId' = 7 and quantity' = 1 and tOrder' = 300 and tLog' = 301 and v = v
               and fmt = fixed2 and srt = insertion_sort]
    present tuv
  have c5: "o_orderId (last (orderQueue t)) < o_orderId (last (orderQueue v))"
    by simp
  from spec [where tOrder = 200 and tLog = 201 and itemId = 5 and quantity = 50 and s = stocked
               and t = t, THEN conjunct2, THEN conjunct2, THEN conjunct2, THEN conjunct2]
    present tuv(1)
  have c6: "t_action (hd (transactionHistory t)) = ''Order Created''"
    "t_itemId (hd (transactionHistory t)) = 5"
    by auto
  from spec [where tOrder = 300 and tLog = 301 and itemId = 7 and quantity = 1 and s = u
               and t = v, THEN conjunct2, THEN conjunct2, THEN conjunct2, THEN conjunct2]
    tuv(3,4)
  have c7: "t_action (hd (transactionHistory v)) = ''Order Created''"
    by auto
  from s c4 have e1: "\<exists>s. run fixed2 insertion_sort session fresh = Inr s \<and>
        list_all (\<lambda>order. o_orderId order < nextOrderId s) (orderQueue s) \<and>
        map o_orderId (orderQueue s) = [1]"
    by (intro exI [of _ s]) simp
  from tuv c5 c6 c7 have e2: "\<exists>t u v. createOrder 200 201 5 50 stocked = Inr t \<and>
        run fixed2 insertion_sort [ProcessNextOrder 400, AddItem 450 washer] t = Inr u \<and>
        createOrder 300 301 7 1 u = Inr v \<and>
        o_orderId (last (orderQueue t)) < o_orderId (last (orderQueue v)) \<and>
        map o_orderId (orderQueue v) = [1, 2] \<and>
        t_action (hd (transactionHistory t)) = ''Order Created'' \<and>
        t_itemId (hd (transactionHistory t)) = 5 \<and>
        t_action (hd (transactionHistory v)) = ''Order Created''"
    by (intro exI [of _ t] exI [of _ u] exI [of _ v]) simp
  show ?thesis
    by (intro conjI absent present c1 c2 c3 e1 e2)
qed

subsection \<open>addItem and the next identifier\<close>

text \<open>
  \<^verbatim>\<open>addItem\<close> sets the next identifier to the successor of the identifier just added,
  whatever the identifiers added before were; \<^verbatim>\<open>loadFromFile\<close> takes the maximum.
\<close>

lemma addItem_nextId:
  assumes "addItem fmt now item s = Inr t"
  shows "getNextId t = i_id item + 1 \<and> fmlookup (inventory t) (i_id item) = Some item"
  using assms
  by (auto simp: addItem_def Let_def addTransaction_def recordItem_def getNextId_def
           split: if_splits)

lemma two_adds_run:
  "\<not> isl (run fixed2 insertion_sort [AddItem 100 bolt, AddItem 200 anvil] fresh) \<and>
   getNextId (projr (run fixed2 insertion_sort [AddItem 100 bolt, AddItem 200 anvil] fresh)) = 3 \<and>
   fmlookup (inventory (projr (run fixed2 insertion_sort [AddItem 100 bolt, AddItem 200 anvil] fresh))) 5 =
     Some bolt"
  by code_simp

text \<open>
  Claim C1, which the code does not satisfy. On an engine constructed without a file,
  \<^verbatim>\<open>addItem\<close> of an item with identifier 5 followed by \<^verbatim>\<open>addItem\<close> of an item with
  identifier 2 leaves \<^verbatim>\<open>getNextId()\<close> at 3, although item 5 is in the catalogue: the
  next identifier is neither the maximum plus one, which is 6, nor above every identifier
  inserted.
\<close>

theorem addItem_smaller_id_lowers_nextId:
  "WarehouseSystem_ctor stod_decimal ''inventory.csv'' no_file [] = Inr fresh \<and>
   i_id bolt = 5 \<and> i_id anvil = 2 \<and>
   (\<exists>s. run fixed2 insertion_sort [AddItem 100 bolt, AddItem 200 anvil] fresh = Inr s \<and>
        getNextId s = 3 \<and> fmlookup (inventory s) 5 = Some bolt)"
proof -
  define s where "s = projr (run fixed2 insertion_sort [AddItem 100 bolt, AddItem 200 anvil] fresh)"
  from two_adds_run have
    "run fixed2 insertion_sort [AddItem 100 bolt, AddItem 200 anvil] fresh = Inr s \<and>
     getNextId s = 3 \<and> fmlookup (inventory s) 5 = Some bolt"
    unfolding s_def by simp
  then have "\<exists>s. run fixed2 insertion_sort [AddItem 100 bolt, AddItem 200 anvil] fresh = Inr s \<and>
        getNextId s = 3 \<and> fmlookup (inventory s) 5 = Some bolt"
    by (rule exI)
  with ctor_fresh show ?thesis
    by (simp add: bolt_def anvil_def)
qed

subsection \<open>Sorted views\<close>

text \<open>The insertion sort of the examples keeps the promise of \<^verbatim>\<open>std::sort\<close>.\<close>

lemma mset_insert_by: "mset (insert_by lt x xs) = add_mset x (mset xs)"
  by (induction xs) auto

lemma set_insert_by: "set (insert_by lt x xs) = insert x (set xs)"
  by (induction xs) auto

lemma sorted_insert_by:
  fixes key :: "'a \<Rightarrow> 'k::linorder"
  assumes "sorted_wrt (\<lambda>a b. key a \<le> key b) xs"
  shows "sorted_wrt (\<lambda>a b. key a \<le> key b) (insert_by (\<lambda>a b. key a < key b) x xs)"
  using assms by (induction xs) (auto simp: set_insert_by)

lemma mset_insertion_sort: "mset (insertion_sort lt xs) = mset xs"
  by (induction xs) (auto simp: insertion_sort_def mset_insert_by)

lemma sorted_insertion_sort:
  fixes key :: "'a \<Rightarrow> 'k::linorder"
  shows "sorted_wrt (\<lambda>a b. key a \<le> key b) (insertion_sort (\<lambda>a b. key a < key b) xs)"
  by (induction xs) (auto simp: insertion_sort_def sorted_insert_by)

lemma insertion_sort_contract:
  fixes key :: "'a \<Rightarrow> 'k::linorder"
  shows "std_sort_contract insertion_sort (\<lambda>a b. key a < key b)"
  by (simp add: std_sort_contract_def mset_insertion_sort not_less sorted_insertion_sort)

lemma byName_key: "byName = (\<lambda>a b. i_name a < i_name b)"
  by (intro ext) (simp add: byName_def)

lemma byQuantity_key: "byQuantity = (\<lambda>a b. i_quantity a < i_quantity b)"
  by (intro ext) (simp add: byQuantity_def)

lemma set_getAllItems: "set (getAllItems s) = fmran' (inventory s)"
proof -
  have "set (getAllItems s) = (\<lambda>k. the (fmlookup (inventory s) k)) ` fset (fmdom (inventory s))"
    by (simp add: getAllItems_def sorted_list_of_fmap_def image_image)
  also have "\<dots> = fmran' (inventory s)"
    by (auto simp: fmran'_def fmlookup_dom_iff ran_def image_iff Bex_def) (metis option.sel)
  finally show ?thesis .
qed

text \<open>
  Claim C8, as amended. With any sorting routine that keeps the promise of
  \<^verbatim>\<open>std::sort\<close>, \<^verbatim>\<open>sortByName\<close> and \<^verbatim>\<open>sortByQuantity\<close> print a permutation of the
  snapshot of all items, in ascending lexicographic order of the names and in ascending
  order of the quantities. They change the console and nothing else: the catalogue and the
  order in which it is iterated are as before. Nothing is said on the order of items with
  equal names or equal quantities.
\<close>

theorem sorted_views_order_by_key:
  assumes "std_sort_contract srt byName" and "std_sort_contract srt byQuantity"
  shows "sorted_wrt (\<lambda>a b. i_name a \<le> i_name b) (itemsByName srt s) \<and>
         mset (itemsByName srt s) = mset (getAllItems s) \<and>
         sortByName srt s = s\<lparr>cout := cout s @ concat (map name_line (itemsByName srt s))\<rparr> \<and>
         sorted_wrt (\<lambda>a b. i_quantity a \<le> i_quantity b) (itemsByQuantity srt s) \<and>
         mset (itemsByQuantity srt s) = mset (getAllItems s) \<and>
         sortByQuantity srt s =
           s\<lparr>cout := cout s @ concat (map quantity_line (itemsByQuantity srt s))\<rparr> \<and>
         set (getAllItems s) = fmran' (inventory s) \<and>
         inventory (sortByName srt s) = inventory s \<and>
         inventory (sortByQuantity srt s) = inventory s \<and>
         getAllItems (sortByName srt s) = getAllItems s \<and>
         getAllItems (sortByQuantity srt s) = getAllItems s"
proof -
  from assms(1) have n: "sorted_wrt (\<lambda>a b. \<not> byName b a) (itemsByName srt s)"
    "mset (itemsByName srt s) = mset (getAllItems s)"
    by (simp_all add: std_sort_contract_def itemsByName_def)
  from assms(2) have q: "sorted_wrt (\<lambda>a b. \<not> byQuantity b a) (itemsByQuantity srt s)"
    "mset (itemsByQuantity srt s) = mset (getAllItems s)"
    by (simp_all add: std_sort_contract_def itemsByQuantity_def)
  from n(1) have n1: "sorted_wrt (\<lambda>a b. i_name a \<le> i_name b) (itemsByName srt s)"
    by (simp add: byName_def not_less)
  from q(1) have q1: "sorted_wrt (\<lambda>a b. i_quantity a \<le> i_quantity b) (itemsByQuantity srt s)"
    by (simp add: byQuantity_def not_less)
  from n1 n(2) q1 q(2) set_getAllItems [of s] show ?thesis
    by (simp add: sortByName_def sortByQuantity_def getAllItems_def)
qed

text \<open>The snapshot of the stocked engine and its two sorted views.\<close>

lemma stocked_items:
  "getAllItems stocked = [anvil, bolt] \<and>
   itemsByQuantity insertion_sort stocked = [anvil, bolt] \<and>
   itemsByName insertion_sort stocked = [anvil, bolt]"
  by code_simp

text \<open>
  On the two items of the stocked engine the sort of the GNU library runs its insertion
  sort only, and the items of equal quantity stay in the order of their identifiers.
\<close>

lemma stocked_sorted:
  "std_sort_gnu byQuantity (getAllItems stocked) = Some [anvil, bolt] \<and>
   std_sort_gnu byName (getAllItems stocked) = Some [anvil, bolt]"
  by code_simp

text \<open>
  The snapshot of the twenty crates is in ascending order of the identifiers, and all
  quantities are equal. The sort of the GNU library returns on it: the median-of-three
  step swaps the first element with the eleventh, the partition then swaps the second
  with the twentieth, the third with the nineteenth, and so on to the tenth with the
  twelfth, and the insertion sort moves nothing.
\<close>

lemma shelf_ids:
  "map i_id (getAllItems shelf) =
     [1, 2, 3, 4, 5, 6, 7, 8, 9, 10, 11, 12, 13, 14, 15, 16, 17, 18, 19, 20]"
  by code_simp

lemma shelf_quantities:
  "map i_quantity (getAllItems shelf) =
     [5, 5, 5, 5, 5, 5, 5, 5, 5, 5, 5, 5, 5, 5, 5, 5, 5, 5, 5, 5]"
  by code_simp

lemma shelf_stable: "sort_key i_quantity (getAllItems shelf) = getAllItems shelf"
  by code_simp

lemma shelf_cout: "cout shelf = []"
  by (simp add: shelf_def fresh_def)

lemma shelf_sorted:
  "std_sort_gnu byQuantity (getAllItems shelf) =
     Some (map crate [11, 20, 19, 18, 17, 16, 15, 14, 13, 12, 1, 10, 9, 8, 7, 6, 5, 4, 3, 2])"
  by code_simp

text \<open>
  Claim C8 as stated fails. \<^verbatim>\<open>sortByQuantity\<close> with the sort of the GNU library lists the
  twenty crates of equal quantity with identifier 11 first, then 20 down to 12, then 1,
  then 10 down to 2: this is ascending in the quantity, but it is not the stable sort of
  the snapshot, which lists the identifiers 1 to 20 in ascending order.
\<close>

theorem sortByQuantity_ties_counterexample:
  "map i_id (getAllItems shelf) =
     [1, 2, 3, 4, 5, 6, 7, 8, 9, 10, 11, 12, 13, 14, 15, 16, 17, 18, 19, 20] \<and>
   map i_quantity (getAllItems shelf) =
     [5, 5, 5, 5, 5, 5, 5, 5, 5, 5, 5, 5, 5, 5, 5, 5, 5, 5, 5, 5] \<and>
   std_sort_gnu byQuantity (getAllItems shelf) = Some (itemsByQuantity gnu_sort shelf) \<and>
   map i_id (itemsByQuantity gnu_sort shelf) =
     [11, 20, 19, 18, 17, 16, 15, 14, 13, 12, 1, 10, 9, 8, 7, 6, 5, 4, 3, 2] \<and>
   sorted_wrt (\<lambda>a b. i_quantity a \<le> i_quantity b) (itemsByQuantity gnu_sort shelf) \<and>
   map i_id (sort_key i_quantity (getAllItems shelf)) =
     [1, 2, 3, 4, 5, 6, 7, 8, 9, 10, 11, 12, 13, 14, 15, 16, 17, 18, 19, 20] \<and>
   itemsByQuantity gnu_sort shelf \<noteq> sort_key i_quantity (getAllItems shelf) \<and>
   sortByQuantity gnu_sort shelf =
     shelf\<lparr>cout := concat (map quantity_line
       (map crate [11, 20, 19, 18, 17, 16, 15, 14, 13, 12, 1, 10, 9, 8, 7, 6, 5, 4, 3, 2]))\<rparr>"
proof -
  have view: "itemsByQuantity gnu_sort shelf =
      map crate [11, 20, 19, 18, 17, 16, 15, 14, 13, 12, 1, 10, 9, 8, 7, 6, 5, 4, 3, 2]"
    by (simp only: itemsByQuantity_def gnu_sort_def shelf_sorted option.sel)
  have returns: "std_sort_gnu byQuantity (getAllItems shelf) = Some (itemsByQuantity gnu_sort shelf)"
    by (simp only: view shelf_sorted)
  have ids: "map i_id (itemsByQuantity gnu_sort shelf) =
      [11, 20, 19, 18, 17, 16, 15, 14, 13, 12, 1, 10, 9, 8, 7, 6, 5, 4, 3, 2]"
    unfolding view by (simp add: crate_def)
  have asc: "sorted_wrt (\<lambda>a b. i_quantity a \<le> i_quantity b) (itemsByQuantity gnu_sort shelf)"
    unfolding view by (simp add: crate_def)
  have stable: "map i_id (sort_key i_quantity (getAllItems shelf)) =
      [1, 2, 3, 4, 5, 6, 7, 8, 9, 10, 11, 12, 13, 14, 15, 16, 17, 18, 19, 20]"
    by (simp only: shelf_stable shelf_ids)
  have differs: "itemsByQuantity gnu_sort shelf \<noteq> sort_key i_quantity (getAllItems shelf)"
  proof
    assume "itemsByQuantity gnu_sort shelf = sort_key i_quantity (getAllItems shelf)"
    then have "map i_id (itemsByQuantity gnu_sort shelf) =
        map i_id (sort_key i_quantity (getAllItems shelf))"
      by (rule arg_cong)
    then have "[11, 20, 19, 18, 17, 16, 15, 14, 13, 12, 1, 10, 9, 8, 7, 6, 5, 4, 3, 2] =
        [1, 2, 3, 4, 5, 6, 7, 8, 9, 10, 11, 12, 13, 14, 15, 16, 17, 18, 19, 20 :: int]"
      by (simp only: ids stable)
    then show False by simp
  qed
  have shown: "sortByQuantity gnu_sort shelf =
      shelf\<lparr>cout := concat (map quantity_line
        (map crate [11, 20, 19, 18, 17, 16, 15, 14, 13, 12, 1, 10, 9, 8, 7, 6, 5, 4, 3, 2]))\<rparr>"
    by (simp only: sortByQuantity_def view shelf_cout append_Nil)
  show ?thesis
    by (intro conjI shelf_ids shelf_quantities returns ids asc stable differs shown)
qed

text \<open>The insertion sort on the stocked engine.\<close>

theorem sorted_views_order_by_key_witness:
  "std_sort_contract insertion_sort (byName :: rat InventoryItem \<Rightarrow> rat InventoryItem \<Rightarrow> bool) \<and>
   std_sort_contract insertion_sort (byQuantity :: rat InventoryItem \<Rightarrow> rat InventoryItem \<Rightarrow> bool) \<and>
   itemsByName insertion_sort stocked = [anvil, bolt] \<and>
   sorted_wrt (\<lambda>a b. i_name a \<le> i_name b) (itemsByName insertion_sort stocked) \<and>
   sorted_wrt (\<lambda>a b. i_quantity a \<le> i_quantity b) (itemsByQuantity insertion_sort stocked) \<and>
   inventory (sortByName insertion_sort stocked) = inventory stocked \<and>
   inventory (sortByQuantity insertion_sort stocked) = inventory stocked"
proof -
  have n: "std_sort_contract insertion_sort (byName :: rat InventoryItem \<Rightarrow> rat InventoryItem \<Rightarrow> bool)"
    unfolding byName_key by (rule insertion_sort_contract)
  have q: "std_sort_contract insertion_sort (byQuantity :: rat InventoryItem \<Rightarrow> rat InventoryItem \<Rightarrow> bool)"
    unfolding byQuantity_key by (rule insertion_sort_contract)
  from sorted_views_order_by_key [OF n q, of stocked] n q stocked_items show ?thesis
    by simp
qed

subsection \<open>Printing and reading integers\<close>

text \<open>\<^verbatim>\<open>std::stoi\<close> reads back what the output operator prints for an \<^verbatim>\<open>int\<close>.\<close>

lemma digit_char_cases:
  assumes "d < 10"
  shows "isdigit (digit_char d) \<and> digit_val (digit_char d) = d"
proof -
  from assms have "d = 0 \<or> d = 1 \<or> d = 2 \<or> d = 3 \<or> d = 4 \<or> d = 5 \<or> d = 6 \<or> d = 7 \<or> d = 8 \<or> d = 9"
    by arith
  then show ?thesis
    by (elim disjE) (simp_all add: digit_char_def isdigit_def digit_val_def)
qed

lemma isdigit_plain:
  assumes "isdigit c"
  shows "\<not> isspace c \<and> c \<noteq> CHR '','' \<and> c \<noteq> CHR ''\<newline>'' \<and> c \<noteq> CHR ''-'' \<and> c \<noteq> CHR ''+''"
  using assms by (auto simp: isdigit_def isspace_def)

lemma digits_isdigit: "c \<in> set (digits n) \<Longrightarrow> isdigit c"
proof (induction n arbitrary: c rule: digits.induct)
  case (1 n)
  show ?case
  proof (cases "n < 10")
    case True
    with "1.prems" show ?thesis
      by (simp add: digits.simps [of n] digit_char_cases)
  next
    case False
    with "1.prems" "1.IH" show ?thesis
      by (auto simp: digits.simps [of n] digit_char_cases)
  qed
qed

lemma digits_not_Nil: "digits n \<noteq> []"
  by (simp add: digits.simps [of n])

lemma digits_val_snoc: "digits_val (ds @ [c]) = 10 * digits_val ds + digit_val c"
  by (simp add: digits_val_def)

lemma digits_val_digits: "digits_val (digits n) = n"
proof (induction n rule: digits.induct)
  case (1 n)
  show ?case
  proof (cases "n < 10")
    case True
    then show ?thesis
      by (simp add: digits.simps [of n] digits_val_def digit_char_cases)
  next
    case False
    with "1.IH" show ?thesis
      by (simp add: digits.simps [of n] digits_val_snoc digit_char_cases)
  qed
qed

lemma takeWhile_isdigit_digits: "takeWhile isdigit (digits n) = digits n"
  by (simp add: takeWhile_eq_all_conv digits_isdigit)

lemma hd_digits: "isdigit (hd (digits n))"
  using digits_not_Nil [of n] digits_isdigit [of "hd (digits n)" n] by simp

lemma stoi_to_string:
  assumes "in_int_range n"
  shows "stoi (to_string n) = Inr n"
proof (cases "n < 0")
  case True
  have "\<not> isspace CHR ''-''"
    by (simp add: isspace_def)
  with True assms show ?thesis
    by (simp add: stoi_def to_string_def Let_def takeWhile_isdigit_digits digits_not_Nil
          digits_val_digits)
next
  case False
  from hd_digits [of "nat n"] have h: "\<not> isspace (hd (digits (nat n)))"
    "hd (digits (nat n)) \<noteq> CHR ''-''" "hd (digits (nat n)) \<noteq> CHR ''+''"
    by (simp_all add: isdigit_plain)
  from h(1) have "dropWhile isspace (digits (nat n)) = digits (nat n)"
    using digits_not_Nil [of "nat n"] by (cases "digits (nat n)") simp_all
  with False assms h show ?thesis
    by (simp add: stoi_def to_string_def Let_def takeWhile_isdigit_digits digits_not_Nil
          digits_val_digits)
qed

lemma csv_safe_to_string: "csv_safe (to_string n)"
  using digits_isdigit isdigit_plain
  by (fastforce simp: csv_safe_def to_string_def)


subsection \<open>Reading back what saveToFile wrote\<close>

lemma takeWhile_field:
  assumes "delim \<notin> set field"
  shows "takeWhile (\<lambda>c. c \<noteq> delim) (field @ delim # rest) = field \<and>
         dropWhile (\<lambda>c. c \<noteq> delim) (field @ delim # rest) = delim # rest"
  using assms by (induction field) auto

lemma getline_delim_field:
  assumes "delim \<notin> set field"
  shows "getline_delim delim (field @ delim # rest, True) str = (field, (rest, True))"
  using takeWhile_field [OF assms, of rest] by (simp add: getline_delim_def)

lemma getline_delim_last:
  assumes "delim \<notin> set field"
  shows "getline_delim delim (field, True) str = (field, ([], False))"
  using assms by (simp add: getline_delim_def)

lemma getlines_from_piece:
  assumes "delim \<notin> set piece"
  shows "getlines_from delim cur (piece @ delim # rest) = (cur @ piece) # getlines_from delim [] rest"
  using assms by (induction piece arbitrary: cur) auto

lemma getlines_pieces:
  assumes "\<forall>piece \<in> set pieces. delim \<notin> set piece"
  shows "getlines_from delim [] (concat (map (\<lambda>piece. piece @ [delim]) pieces)) = pieces"
  using assms
proof (induction pieces)
  case Nil
  then show ?case by simp
next
  case (Cons piece pieces)
  then show ?case
    using getlines_from_piece [of delim piece "[]" "concat (map (\<lambda>piece. piece @ [delim]) pieces)"]
    by simp
qed

lemma csv_row_fields: "csv_row fmt item = csv_fields fmt item @ [CHR ''\<newline>'']"
  by (simp add: csv_row_def csv_fields_def)

lemma csv_fields_one_line:
  assumes "reloadable fmt stod rd item"
  shows "CHR ''\<newline>'' \<notin> set (csv_fields fmt item)"
  using assms csv_safe_to_string [of "i_id item"] csv_safe_to_string [of "i_quantity item"]
    csv_safe_to_string [of "i_minStockLevel item"]
  by (simp add: csv_fields_def reloadable_def csv_safe_def)

lemma load_line_fields:
  assumes "reloadable fmt stod rd item"
  shows "load_line stod (csv_fields fmt item) s =
           Inr (s\<lparr>inventory := fmupd (i_id item) (reread rd item) (inventory s),
                  nextId := max (nextId s) (i_id item + 1)\<rparr>)"
proof -
  from assms have safe: "CHR '','' \<notin> set (i_name item)" "CHR '','' \<notin> set (i_category item)"
    "CHR '','' \<notin> set (fmt (i_price item))"
    and price: "stod (fmt (i_price item)) = Inr (rd (i_price item))"
    and range: "in_int_range (i_id item)" "in_int_range (i_quantity item)"
      "in_int_range (i_minStockLevel item)" "\<not> INT_MAX \<le> i_id item"
    by (simp_all add: reloadable_def csv_safe_def)
  have num: "CHR '','' \<notin> set (to_string n)" for n
    using csv_safe_to_string [of n] by (simp add: csv_safe_def)
  have rec: "\<lparr>i_id = i_id item, i_name = i_name item, i_category = i_category item,
              i_quantity = i_quantity item, i_price = rd (i_price item),
              i_minStockLevel = i_minStockLevel item\<rparr> = reread rd item"
    by (simp add: reread_def)
  show ?thesis
    unfolding load_line_def csv_fields_def
    by (simp add: getline_delim_field getline_delim_last num safe price range stoi_to_string rec)
qed


text \<open>
  The loop of \<^verbatim>\<open>loadFromFile\<close> over the rows of a saved catalogue stores each item
  again, and storing the items of a catalogue in ascending key order into an empty map
  gives the catalogue back.
\<close>

lemma load_lines_fields:
  assumes "\<forall>item \<in> set items. reloadable fmt stod rd item"
  shows "\<exists>t. load_lines stod (map (csv_fields fmt) items) s = Inr t \<and>
           inventory t = fold (\<lambda>item. fmupd (i_id item) (reread rd item)) items (inventory s)"
  using assms
proof (induction items arbitrary: s)
  case Nil
  then show ?case by simp
next
  case (Cons item items)
  then have "reloadable fmt stod rd item"
    by simp
  from load_line_fields [OF this, of s] Cons.IH [of "s\<lparr>inventory := fmupd (i_id item) (reread rd item) (inventory s),
                  nextId := max (nextId s) (i_id item + 1)\<rparr>"] Cons.prems
  show ?case by simp
qed

lemma getlines_saved:
  assumes "\<forall>item \<in> set items. reloadable fmt stod rd item"
  shows "getlines CHR ''\<newline>'' (csv_header @ concat (map (csv_row fmt) items)) =
           ''ID,Name,Category,Quantity,Price,MinStockLevel'' # map (csv_fields fmt) items"
proof -
  let ?pieces = "''ID,Name,Category,Quantity,Price,MinStockLevel'' # map (csv_fields fmt) items"
  have rows: "csv_row fmt = (\<lambda>item. csv_fields fmt item @ [CHR ''\<newline>''])"
    by (intro ext) (rule csv_row_fields)
  have shape: "csv_header @ concat (map (csv_row fmt) items) =
                 concat (map (\<lambda>piece. piece @ [CHR ''\<newline>'']) ?pieces)"
    by (simp add: csv_header_def rows comp_def)
  have "\<forall>piece \<in> set ?pieces. CHR ''\<newline>'' \<notin> set piece"
    using assms csv_fields_one_line [of fmt stod rd] by auto
  from getlines_pieces [OF this] show ?thesis
    unfolding shape getlines_def by simp
qed

lemma fmlookup_fold_fmupd:
  "fmlookup (fold (\<lambda>item. fmupd (key item) (g item)) items m0) k =
     (case filter (\<lambda>item. key item = k) items of
        [] \<Rightarrow> fmlookup m0 k
      | item # others \<Rightarrow> Some (g (last (item # others))))"
  by (induction items rule: rev_induct) (auto split: list.splits)

lemma filter_by_key:
  assumes "distinct ks" and "\<forall>k' \<in> set ks. key (h k') = k'"
  shows "filter (\<lambda>item. key item = k) (map h ks) = (if k \<in> set ks then [h k] else [])"
  using assms by (induction ks) auto

lemma getAllItems_by_key:
  "getAllItems s =
     map (\<lambda>k. the (fmlookup (inventory s) k)) (sorted_list_of_fset (fmdom (inventory s)))"
  by (simp add: getAllItems_def sorted_list_of_fmap_def comp_def)

lemma reload_fold:
  assumes "\<forall>k item. fmlookup (inventory s) k = Some item \<longrightarrow> i_id item = k"
  shows "fold (\<lambda>item. fmupd (i_id item) (reread rd item)) (getAllItems s) fmempty =
           fmmap (reread rd) (inventory s)"
proof (rule fmap_ext)
  fix k
  let ?ks = "sorted_list_of_fset (fmdom (inventory s))"
  let ?h = "\<lambda>k. the (fmlookup (inventory s) k)"
  have d: "distinct ?ks"
    by (simp add: sorted_list_of_fset.rep_eq)
  have keys: "\<forall>k' \<in> set ?ks. i_id (?h k') = k'"
    using assms by (auto simp: fmlookup_dom_iff)
  have "filter (\<lambda>item. i_id item = k) (getAllItems s) = (if k \<in> set ?ks then [?h k] else [])"
    unfolding getAllItems_by_key by (rule filter_by_key [where key = i_id, OF d keys])
  then show "fmlookup (fold (\<lambda>item. fmupd (i_id item) (reread rd item)) (getAllItems s) fmempty) k =
             fmlookup (fmmap (reread rd) (inventory s)) k"
    by (auto simp: fmlookup_fold_fmupd fmlookup_dom_iff)
qed

lemma getAllItems_fmmap:
  assumes "inventory t = fmmap f (inventory s)"
  shows "getAllItems t = map f (getAllItems s)"
  unfolding getAllItems_by_key assms
  by (auto simp: fmlookup_dom_iff)

text \<open>
  In every state reached from the constructor each item is stored under its own
  identifier, and that identifier is below the largest \<^verbatim>\<open>int\<close>.
\<close>

lemma load_line_keys:
  assumes "load_line stod line s = Inr t" and "keys_are_ids s"
  shows "keys_are_ids t"
  using assms
  by (auto simp: load_line_def Let_def keys_are_ids_def split: prod.splits sum.splits if_splits)

lemma load_lines_keys:
  assumes "load_lines stod ls s = Inr t" and "keys_are_ids s"
  shows "keys_are_ids t"
  using assms
proof (induction ls arbitrary: s)
  case Nil
  then show ?case by simp
next
  case (Cons l ls)
  then obtain u where u: "load_line stod l s = Inr u" "load_lines stod ls u = Inr t"
    by (auto split: sum.splits)
  from load_line_keys [OF u(1) Cons.prems(2)] Cons.IH [OF u(2)] show ?case by simp
qed

lemma ctor_keys:
  assumes "WarehouseSystem_ctor stod fname stored out = Inr s"
  shows "keys_are_ids s"
proof -
  let ?init = "\<lparr>inventory = fmempty, filename = fname, nextId = 1, transactionHistory = [],
                orderQueue = [], categoryRoot = CategoryNode ''Root'' [] [], nextOrderId = 1,
                disk = stored, cout = out\<rparr> :: 'a WarehouseSystem"
  from assms obtain u where u: "loadFromFile stod ?init = Inr u" and s: "s = initializeCategoryTree u"
    by (auto simp: WarehouseSystem_ctor_def split: sum.splits)
  have "keys_are_ids ?init"
    by (simp add: keys_are_ids_def)
  with u have "keys_are_ids u"
    by (auto simp: loadFromFile_def split: option.splits dest: load_lines_keys)
  with s show ?thesis
    by (simp add: keys_are_ids_def initializeCategoryTree_def)
qed

lemma exec_keys:
  assumes "exec fmt srt c s = Inr t" and "keys_are_ids s"
  shows "keys_are_ids t"
proof (cases c)
  case (AddItem now item)
  with assms show ?thesis
    by (auto simp: addItem_def Let_def addTransaction_def recordItem_def keys_are_ids_def
             split: if_splits)
next
  case (RemoveItem itemId)
  with assms show ?thesis
    by (auto simp: removeItem_def keys_are_ids_def split: if_splits)
next
  case (UpdateItem item)
  with assms show ?thesis
    by (auto simp: updateItem_def keys_are_ids_def split: if_splits)
next
  case (CreateOrder tOrder tLog itemId quantity)
  with assms show ?thesis
    by (auto simp: createOrder_def Let_def addTransaction_def keys_are_ids_def split: if_splits)
next
  case (ProcessNextOrder now)
  with assms show ?thesis
    by (auto simp: processNextOrder_def Let_def addTransaction_def findItem_def keys_are_ids_def
             split: list.splits option.splits if_splits)
next
  case SortByName
  with assms show ?thesis by (auto simp: sortByName_def keys_are_ids_def)
next
  case SortByQuantity
  with assms show ?thesis by (auto simp: sortByQuantity_def keys_are_ids_def)
next
  case DisplayOrderQueue
  with assms show ?thesis by (auto simp: displayOrderQueue_def keys_are_ids_def split: if_splits)
next
  case (Display msg)
  with assms show ?thesis by (auto simp: keys_are_ids_def)
qed

lemma run_keys:
  assumes "run fmt srt cs s = Inr t" and "keys_are_ids s"
  shows "keys_are_ids t"
  using assms
proof (induction cs arbitrary: s)
  case Nil
  then show ?case by simp
next
  case (Cons c cs)
  then obtain u where u: "exec fmt srt c s = Inr u" "run fmt srt cs u = Inr t"
    by (auto split: sum.splits)
  from exec_keys [OF u(1) Cons.prems(2)] Cons.IH [OF u(2)] show ?case by simp
qed

lemma reachable_keys_are_ids:
  assumes "WarehouseSystem_ctor stod fname stored out = Inr s0" and "run fmt srt cs s0 = Inr s"
  shows "keys_are_ids s"
  using run_keys [OF assms(2) ctor_keys [OF assms(1)]] .

subsection \<open>Rounding to two decimals\<close>

text \<open>
  Rounding to the nearest integer with ties to even: the result is within one half, it is
  even at a tie, and it is the only integer of which this holds.
\<close>

lemma round_half_even_near:
  "\<bar>X - of_int (round_half_even X)\<bar> < 1 / 2 \<or>
   (\<bar>X - of_int (round_half_even X)\<bar> = 1 / 2 \<and> even (round_half_even X))"
proof -
  define f where "f = \<lfloor>X\<rfloor>"
  define d where "d = X - of_int f"
  have d: "0 \<le> d" "d < 1"
    unfolding d_def f_def by linarith+
  have X: "X = of_int f + d"
    by (simp add: d_def)
  have r: "round_half_even X =
      (if d < 1 / 2 then f else if 1 / 2 < d then f + 1 else if even f then f else f + 1)"
    by (simp add: round_half_even_def Let_def f_def d_def)
  consider "d < 1 / 2" | "1 / 2 < d" | "d = 1 / 2" "even f" | "d = 1 / 2" "odd f"
    by fastforce
  then show ?thesis
  proof cases
    case 1
    with d r X show ?thesis by simp
  next
    case 2
    with d r X show ?thesis by simp
  next
    case 3
    with d r X show ?thesis by simp
  next
    case 4
    with d r X show ?thesis by simp
  qed
qed

lemma round_half_even_unique:
  assumes "\<bar>X - of_int n\<bar> < 1 / 2 \<or> (\<bar>X - of_int n\<bar> = 1 / 2 \<and> even n)"
  shows "round_half_even X = n"
proof -
  define f where "f = \<lfloor>X\<rfloor>"
  define d where "d = X - of_int f"
  have d: "0 \<le> d" "d < 1"
    unfolding d_def f_def by linarith+
  have X: "X = of_int f + d"
    by (simp add: d_def)
  have r: "round_half_even X =
      (if d < 1 / 2 then f else if 1 / 2 < d then f + 1 else if even f then f else f + 1)"
    by (simp add: round_half_even_def Let_def f_def d_def)
  from assms have close: "\<bar>X - of_int n\<bar> \<le> 1 / 2"
    by auto
  from close have "X - of_int n \<le> 1 / 2 \<and> - (X - of_int n) \<le> 1 / 2"
    by (simp only: abs_le_iff)
  then have bounds: "X - of_int n \<le> 1 / 2" "- (1 / 2) \<le> X - of_int n"
    by linarith+
  have "of_int f < (of_int (n + 1) :: rat)"
    using bounds d X by simp
  then have up: "f \<le> n"
    by (simp only: of_int_less_iff)
  have "of_int n < (of_int (f + 2) :: rat)"
    using bounds d X by simp
  then have low: "n \<le> f + 1"
    by (simp only: of_int_less_iff)
  from up low consider "f = n" | "f = n - 1"
    by fastforce
  then show ?thesis
  proof cases
    case 1
    with assms X have "d < 1 / 2 \<or> (d = 1 / 2 \<and> even f)"
      using d by auto
    with r 1 show ?thesis by auto
  next
    case 2
    then have "X - of_int n = d - 1"
      using X by simp
    with assms d have "1 / 2 < d \<or> (d = 1 / 2 \<and> even n)"
      by auto
    with r 2 show ?thesis by auto
  qed
qed

lemma round_half_even_minus: "round_half_even (- X) = - round_half_even X"
proof (rule round_half_even_unique)
  have "\<bar>- X - of_int (- round_half_even X)\<bar> = \<bar>X - of_int (round_half_even X)\<bar>"
    by simp
  with round_half_even_near [of X]
  show "\<bar>- X - of_int (- round_half_even X)\<bar> < 1 / 2 \<or>
        (\<bar>- X - of_int (- round_half_even X)\<bar> = 1 / 2 \<and> even (- round_half_even X))"
    by simp
qed

lemma round_half_even_nonneg: "0 \<le> X \<Longrightarrow> 0 \<le> round_half_even X"
  by (simp add: round_half_even_def Let_def)

lemma round2_hundredths: "round2 x = of_int (round_half_even (x * 100)) / 100"
proof (cases "x < 0")
  case True
  then have "\<bar>x\<bar> * 100 = - (x * 100)"
    by simp
  with True show ?thesis
    by (simp add: round2_def round_half_even_minus)
next
  case False
  then show ?thesis
    by (simp add: round2_def)
qed

lemma round2_nearer:
  assumes "\<bar>y - round2 x\<bar> \<le> \<bar>x - round2 x\<bar>"
  shows "round2 y = round2 x"
proof -
  define n where "n = round_half_even (x * 100)"
  have rx: "round2 x = of_int n / 100"
    by (simp add: round2_hundredths n_def)
  have scale: "\<bar>z * 100 - of_int n\<bar> = 100 * \<bar>z - of_int n / 100\<bar>" for z :: rat
  proof -
    have "z * 100 - of_int n = 100 * (z - of_int n / 100)"
      by simp
    then have "\<bar>z * 100 - of_int n\<bar> = \<bar>100 :: rat\<bar> * \<bar>z - of_int n / 100\<bar>"
      by (simp only: abs_mult)
    then show ?thesis
      by simp
  qed
  from assms have le: "\<bar>y * 100 - of_int n\<bar> \<le> \<bar>x * 100 - of_int n\<bar>"
    unfolding scale rx by simp
  from round_half_even_near [of "x * 100"]
  have "\<bar>x * 100 - of_int n\<bar> < 1 / 2 \<or> (\<bar>x * 100 - of_int n\<bar> = 1 / 2 \<and> even n)"
    by (simp add: n_def)
  with le have "\<bar>y * 100 - of_int n\<bar> < 1 / 2 \<or> (\<bar>y * 100 - of_int n\<bar> = 1 / 2 \<and> even n)"
    by linarith
  then have "round_half_even (y * 100) = n"
    by (rule round_half_even_unique)
  then show ?thesis
    by (simp add: round2_hundredths n_def)
qed

subsection \<open>Printing and reading prices\<close>

text \<open>
  The two-decimal text of a number holds no comma and no line break, and it writes the
  number rounded to two decimals.
\<close>

lemma isdigit_digit_char: "d < 10 \<Longrightarrow> isdigit (digit_char d)"
  by (simp add: digit_char_cases)

lemma isdigit_not_sep: "isdigit c \<Longrightarrow> c \<noteq> CHR '','' \<and> c \<noteq> CHR ''\<newline>''"
  by (simp add: isdigit_plain)

lemma takeWhile_isdigit_dot:
  "takeWhile isdigit (digits m @ CHR ''.'' # rest) = digits m \<and>
   dropWhile isdigit (digits m @ CHR ''.'' # rest) = CHR ''.'' # rest"
proof -
  have dot: "\<not> isdigit CHR ''.''"
    by (simp add: isdigit_def)
  have all: "\<And>c. c \<in> set (digits m) \<Longrightarrow> isdigit c"
    by (rule digits_isdigit)
  from takeWhile_append2 [of "digits m" isdigit "CHR ''.'' # rest", OF all]
  have "takeWhile isdigit (digits m @ CHR ''.'' # rest) = digits m @ takeWhile isdigit (CHR ''.'' # rest)" .
  moreover from dropWhile_append2 [of "digits m" isdigit "CHR ''.'' # rest", OF all]
  have "dropWhile isdigit (digits m @ CHR ''.'' # rest) = dropWhile isdigit (CHR ''.'' # rest)" .
  ultimately show ?thesis
    using dot by simp
qed

lemma csv_safe_digits: "csv_safe (digits m)"
  using digits_isdigit [of _ m] isdigit_not_sep by (auto simp: csv_safe_def)

lemma csv_safe_append: "csv_safe (xs @ ys) \<longleftrightarrow> csv_safe xs \<and> csv_safe ys"
  by (auto simp: csv_safe_def)

lemma csv_safe_fixed2: "csv_safe (fixed2 x)"
proof -
  define n where "n = nat (round_half_even (\<bar>x\<bar> * 100))"
  have a: "n mod 100 div 10 < 10" and b: "n mod 10 < 10"
    by simp_all
  have two: "csv_safe [digit_char (n mod 100 div 10), digit_char (n mod 10)]"
    using isdigit_not_sep [OF isdigit_digit_char [OF a]] isdigit_not_sep [OF isdigit_digit_char [OF b]]
    by (auto simp: csv_safe_def)
  have sign: "csv_safe (if x < 0 then ''-'' else [])" and dot: "csv_safe ''.''"
    by (simp_all add: csv_safe_def)
  have "fixed2 x = (if x < 0 then ''-'' else []) @ digits (n div 100) @ ''.'' @
          [digit_char (n mod 100 div 10), digit_char (n mod 10)]"
    by (simp add: fixed2_def Let_def n_def)
  then show ?thesis
    by (simp only: csv_safe_append sign dot two csv_safe_digits simp_thms)
qed

lemma two_digits_val:
  "digits_val [digit_char (n mod 100 div 10), digit_char (n mod 10)] = n mod 100"
proof -
  have a: "n mod 100 div 10 < 10" and b: "n mod 10 < 10"
    by simp_all
  have "digits_val [digit_char (n mod 100 div 10), digit_char (n mod 10)] =
          10 * (n mod 100 div 10) + n mod 10"
    using digit_char_cases [OF a] digit_char_cases [OF b] by (simp add: digits_val_def)
  also have "\<dots> = 10 * (n mod 100 div 10) + n mod 100 mod 10"
    by (simp add: mod_mod_cancel)
  also have "\<dots> = n mod 100"
    by (rule mult_div_mod_eq)
  finally show ?thesis .
qed

lemma hundredths: "(of_nat (n div 100) :: rat) + of_nat (n mod 100) / 100 = of_nat n / 100"
proof -
  have "(of_nat n :: rat) = of_nat (n div 100 * 100 + n mod 100)"
    by simp
  also have "\<dots> = of_nat (n div 100) * 100 + of_nat (n mod 100)"
    by (simp only: of_nat_add of_nat_mult of_nat_numeral)
  finally show ?thesis
    by simp
qed

lemma dropWhile_isspace_digit:
  assumes "str \<noteq> []" and "isdigit (hd str)"
  shows "dropWhile isspace str = str"
  using assms by (cases str) (simp_all add: isdigit_plain)

lemma stod_decimal_digits:
  fixes n :: nat
  defines "body \<equiv> digits (n div 100) @ CHR ''.'' # [digit_char (n mod 100 div 10), digit_char (n mod 10)]"
  shows "stod_decimal body = Inr (of_nat n / 100)"
    and "stod_decimal (CHR ''-'' # body) = Inr (- (of_nat n / 100))"
proof -
  have ne: "body \<noteq> []"
    by (simp add: body_def)
  have hd: "hd body = hd (digits (n div 100))"
    using digits_not_Nil [of "n div 100"] by (simp add: body_def)
  with hd_digits [of "n div 100"] have dg: "isdigit (hd body)"
    by simp
  then have plain: "hd body \<noteq> CHR ''-''" "hd body \<noteq> CHR ''+''"
    by (simp_all add: isdigit_plain)
  have sp: "dropWhile isspace body = body"
    using ne dg by (rule dropWhile_isspace_digit)
  have tw: "takeWhile isdigit body = digits (n div 100)"
    and dw: "dropWhile isdigit body = CHR ''.'' # [digit_char (n mod 100 div 10), digit_char (n mod 10)]"
    unfolding body_def using takeWhile_isdigit_dot by simp_all
  have a: "n mod 100 div 10 < 10" and b: "n mod 10 < 10"
    by simp_all
  have frac: "takeWhile isdigit [digit_char (n mod 100 div 10), digit_char (n mod 10)] =
                [digit_char (n mod 100 div 10), digit_char (n mod 10)]"
    using isdigit_digit_char [OF a] isdigit_digit_char [OF b] by simp
  have v: "(of_nat (digits_val (digits (n div 100))) :: rat) +
               of_nat (digits_val [digit_char (n mod 100 div 10), digit_char (n mod 10)]) /
                 10 ^ length [digit_char (n mod 100 div 10), digit_char (n mod 10)] =
             of_nat n / 100"
    by (simp only: digits_val_digits two_digits_val) (simp add: hundredths)
  show "stod_decimal body = Inr (of_nat n / 100)"
    unfolding stod_decimal_def Let_def sp
    by (simp only: tw dw frac v plain ne list.sel digits_not_Nil simp_thms if_True if_False
          list.distinct not_False_eq_True)
  have msp: "dropWhile isspace (CHR ''-'' # body) = CHR ''-'' # body"
    by (simp add: isspace_def)
  show "stod_decimal (CHR ''-'' # body) = Inr (- (of_nat n / 100))"
    unfolding stod_decimal_def Let_def msp
    by (simp only: tw dw frac v list.sel digits_not_Nil simp_thms if_True if_False
          list.distinct not_False_eq_True)
qed

lemma stod_decimal_fixed2: "stod_decimal (fixed2 x) = Inr (round2 x)"
proof -
  define n where "n = nat (round_half_even (\<bar>x\<bar> * 100))"
  have "0 \<le> round_half_even (\<bar>x\<bar> * 100)"
    by (rule round_half_even_nonneg) simp
  then have n: "(of_nat n :: rat) = of_int (round_half_even (\<bar>x\<bar> * 100))"
    by (simp add: n_def)
  show ?thesis
  proof (cases "x < 0")
    case True
    then have "fixed2 x = CHR ''-'' # digits (n div 100) @
        CHR ''.'' # [digit_char (n mod 100 div 10), digit_char (n mod 10)]"
      by (simp add: fixed2_def Let_def n_def)
    with stod_decimal_digits(2) [of n] n True show ?thesis
      by (simp add: round2_def)
  next
    case False
    then have "fixed2 x = digits (n div 100) @
        CHR ''.'' # [digit_char (n mod 100 div 10), digit_char (n mod 10)]"
      by (simp add: fixed2_def Let_def n_def)
    with stod_decimal_digits(1) [of n] n False show ?thesis
      by (simp add: round2_def)
  qed
qed

lemma reads_nearest_exact: "reads_nearest stod_decimal (\<lambda>p. p) (fixed2 x)"
  by (simp add: reads_nearest_def stod_decimal_fixed2)

text \<open>
  A price that is printed as its two-decimal text and read to a nearest price comes back
  as a price with the same two decimals.
\<close>

lemma storable_reloadable:
  assumes "storable fmt stod val item"
  shows "reloadable fmt stod (read_back fmt stod) item"
    and "round2 (val (read_back fmt stod (i_price item))) = round2 (val (i_price item))"
proof -
  define p where "p = i_price item"
  from assms have printed: "fmt p = fixed2 (val p)"
    unfolding storable_def p_def by blast
  from assms have "reads_nearest stod val (fmt p)"
    unfolding storable_def p_def by blast
  with printed have "reads_nearest stod val (fixed2 (val p))"
    by simp
  then obtain q x where q: "stod (fixed2 (val p)) = Inr q"
    and x: "stod_decimal (fixed2 (val p)) = Inr x"
    and nearest: "\<forall>p'. \<bar>val q - x\<bar> \<le> \<bar>val p' - x\<bar>"
    unfolding reads_nearest_def by auto
  from x have "x = round2 (val p)"
    by (simp add: stod_decimal_fixed2)
  with nearest have "\<bar>val q - round2 (val p)\<bar> \<le> \<bar>val p - round2 (val p)\<bar>"
    by simp
  then have same: "round2 (val q) = round2 (val p)"
    by (rule round2_nearer)
  from q printed have returned: "read_back fmt stod p = q"
    by (simp add: read_back_def)
  from returned same show "round2 (val (read_back fmt stod (i_price item))) = round2 (val (i_price item))"
    by (simp add: p_def)
  from assms printed q returned csv_safe_fixed2 [of "val p"]
  show "reloadable fmt stod (read_back fmt stod) item"
    by (simp add: storable_def reloadable_def p_def)
qed

lemma tuple_of_reread:
  assumes "storable fmt stod val item"
  shows "tuple_of val (reread (read_back fmt stod) item) = tuple_of val item"
  using storable_reloadable(2) [OF assms] by (simp add: tuple_of_def reread_def)

subsection \<open>Saving and loading\<close>

text \<open>On a file that cannot be opened for writing \<^verbatim>\<open>saveToFile\<close> does nothing.\<close>

lemma saveToFile_unopened: "\<not> ofstream_opens (disk s) \<Longrightarrow> saveToFile fmt s = s"
  by (simp add: saveToFile_def)

text \<open>
  When the file opens for writing and then for reading, constructing an engine on the
  file that \<^verbatim>\<open>saveToFile\<close> wrote succeeds, and its catalogue is the saved one with every
  price replaced by what was read from its printed text.
\<close>

lemma reload_saved:
  assumes "ofstream_opens (disk s)" and "ifstream_opens (disk s)"
    and "\<forall>k item. fmlookup (inventory s) k = Some item \<longrightarrow>
           i_id item = k \<and> reloadable fmt stod rd item"
  shows "\<exists>t. WarehouseSystem_ctor stod fname (disk (saveToFile fmt s)) out = Inr t \<and>
           inventory t = fmmap (reread rd) (inventory s) \<and>
           getAllItems t = map (reread rd) (getAllItems s)"
proof -
  let ?init = "\<lparr>inventory = fmempty, filename = fname, nextId = 1, transactionHistory = [],
                orderQueue = [], categoryRoot = CategoryNode ''Root'' [] [], nextOrderId = 1,
                disk = disk (saveToFile fmt s), cout = out\<rparr> :: 'a WarehouseSystem"
  have items: "\<forall>item \<in> set (getAllItems s). reloadable fmt stod rd item"
    using assms(3) by (auto simp: getAllItems_by_key fmlookup_dom_iff)
  from load_lines_fields [OF items, of ?init] obtain u where
    u: "load_lines stod (map (csv_fields fmt) (getAllItems s)) ?init = Inr u"
       "inventory u = fold (\<lambda>item. fmupd (i_id item) (reread rd item)) (getAllItems s) fmempty"
    by auto
  have keys: "\<forall>k item. fmlookup (inventory s) k = Some item \<longrightarrow> i_id item = k"
    using assms(3) by simp
  have written: "ifstream_text (disk (saveToFile fmt s)) =
      Some (csv_header @ concat (map (csv_row fmt) (getAllItems s)))"
    using assms(1,2) by (simp add: saveToFile_def ifstream_text_def)
  from u(1) have "loadFromFile stod ?init = Inr u"
    by (simp add: loadFromFile_def written getlines_saved [OF items])
  then have ctor: "WarehouseSystem_ctor stod fname (disk (saveToFile fmt s)) out =
                     Inr (initializeCategoryTree u)"
    by (simp add: WarehouseSystem_ctor_def)
  have inv: "inventory (initializeCategoryTree u) = fmmap (reread rd) (inventory s)"
    using u(2) reload_fold [OF keys, of rd] by (simp add: initializeCategoryTree_def)
  from ctor inv getAllItems_fmmap [OF inv] show ?thesis
    by simp
qed

text \<open>
  Claim C5, as amended. Let the file open for writing and then for reading, and let every
  item of the catalogue be stored under its own identifier (as \<open>reachable_keys_are_ids\<close>
  shows it is in every state the engine reaches), hold integers that are C++ \<^verbatim>\<open>int\<close>s
  with an identifier below the largest one, and have no comma and no line break in its
  name and its category. Let prices be printed as the two-decimal text of their value,
  and let \<^verbatim>\<open>std::stod\<close> read such a text to a nearest price. Then constructing an engine
  on the file that \<^verbatim>\<open>saveToFile\<close> wrote succeeds, and its catalogue has the same
  identifiers and the same tuples of identifier, name, category, quantity, price and
  minimum stock level, the price taken at two decimals: key by key, in the iteration
  order, and as a set.
\<close>

theorem save_then_load_restores_catalogue:
  assumes "ofstream_opens (disk s)" and "ifstream_opens (disk s)"
    and "\<forall>k item. fmlookup (inventory s) k = Some item \<longrightarrow>
           i_id item = k \<and> storable fmt stod val item"
  shows "\<exists>t. WarehouseSystem_ctor stod fname (disk (saveToFile fmt s)) out = Inr t \<and>
           fmdom (inventory t) = fmdom (inventory s) \<and>
           (\<forall>k item. fmlookup (inventory s) k = Some item \<longrightarrow>
              (\<exists>item'. fmlookup (inventory t) k = Some item' \<and>
                 tuple_of val item' = tuple_of val item)) \<and>
           map (tuple_of val) (getAllItems t) = map (tuple_of val) (getAllItems s) \<and>
           tuple_of val ` fmran' (inventory t) = tuple_of val ` fmran' (inventory s)"
proof -
  let ?rd = "read_back fmt stod"
  have h: "\<forall>k item. fmlookup (inventory s) k = Some item \<longrightarrow>
             i_id item = k \<and> reloadable fmt stod ?rd item"
    using assms(3) storable_reloadable(1) by blast
  from reload_saved [OF assms(1,2) h, of fname out] obtain t where
    t: "WarehouseSystem_ctor stod fname (disk (saveToFile fmt s)) out = Inr t"
       "inventory t = fmmap (reread ?rd) (inventory s)"
       "getAllItems t = map (reread ?rd) (getAllItems s)"
    by blast
  have dom: "fmdom (inventory t) = fmdom (inventory s)"
    by (simp add: t(2))
  have keyed: "\<forall>k item. fmlookup (inventory s) k = Some item \<longrightarrow>
      (\<exists>item'. fmlookup (inventory t) k = Some item' \<and> tuple_of val item' = tuple_of val item)"
  proof (intro allI impI)
    fix k item
    assume a: "fmlookup (inventory s) k = Some item"
    with assms(3) have "storable fmt stod val item"
      by blast
    then have "tuple_of val (reread ?rd item) = tuple_of val item"
      by (rule tuple_of_reread)
    moreover from a have "fmlookup (inventory t) k = Some (reread ?rd item)"
      by (simp add: t(2))
    ultimately show "\<exists>item'. fmlookup (inventory t) k = Some item' \<and>
        tuple_of val item' = tuple_of val item"
      by blast
  qed
  have "\<forall>item \<in> set (getAllItems s). storable fmt stod val item"
    using assms(3) by (auto simp: getAllItems_by_key fmlookup_dom_iff)
  then have "\<forall>item \<in> set (getAllItems s). tuple_of val (reread ?rd item) = tuple_of val item"
    using tuple_of_reread by blast
  then have listed: "map (tuple_of val) (getAllItems t) = map (tuple_of val) (getAllItems s)"
    by (simp add: t(3))
  have "tuple_of val ` set (getAllItems t) = tuple_of val ` set (getAllItems s)"
    using arg_cong [OF listed, of set] by (simp only: set_map)
  then have as_set: "tuple_of val ` fmran' (inventory t) = tuple_of val ` fmran' (inventory s)"
    by (simp only: set_getAllItems)
  from t(1) dom keyed listed as_set show ?thesis
    by blast
qed

text \<open>
  Claim C5 as stated fails. The row written for an item whose name holds a comma has
  seven fields; reading it back, the fourth field, "Hardware", goes to \<^verbatim>\<open>std::stoi\<close>
  as the quantity, and the constructor ends with \<^verbatim>\<open>std::invalid_argument\<close> instead of
  an engine holding the saved item. The file is the one \<^verbatim>\<open>addItem\<close> leaves behind when
  the washer is added to a fresh engine. And when the file cannot be opened for writing,
  nothing is saved: the engine constructed on the header-only file holds the bolt after
  \<^verbatim>\<open>addItem\<close>, \<^verbatim>\<open>saveToFile\<close> leaves the file as it was, and the engine constructed on
  it afterwards holds no item.
\<close>

theorem save_then_load_counterexample:
  "i_name washer = ''Washer, M4'' \<and>
   \<not> isl (run fixed2 insertion_sort [AddItem 100 washer] fresh) \<and>
   disk (projr (run fixed2 insertion_sort [AddItem 100 washer] fresh)) =
     disk (saveToFile fixed2 washers) \<and>
   content (disk (saveToFile fixed2 washers)) =
     Some ''ID,Name,Category,Quantity,Price,MinStockLevel\<newline>7,Washer, M4,Hardware,40,0.10,5\<newline>'' \<and>
   ifstream_opens (disk (saveToFile fixed2 washers)) \<and>
   WarehouseSystem_ctor stod_decimal ''inventory.csv'' (disk (saveToFile fixed2 washers)) [] =
     Inl InvalidArgument \<and>
   \<not> isl (WarehouseSystem_ctor stod_decimal ''inventory.csv'' read_only []) \<and>
   \<not> isl (run fixed2 insertion_sort [AddItem 100 bolt]
            (projr (WarehouseSystem_ctor stod_decimal ''inventory.csv'' read_only []))) \<and>
   getAllItems locked = [bolt] \<and>
   saveToFile fixed2 locked = locked \<and>
   disk (saveToFile fixed2 locked) = read_only \<and>
   \<not> isl (WarehouseSystem_ctor stod_decimal ''inventory.csv'' (disk (saveToFile fixed2 locked)) []) \<and>
   getAllItems (projr (WarehouseSystem_ctor stod_decimal ''inventory.csv''
                        (disk (saveToFile fixed2 locked)) [])) = []"
  by code_simp

text \<open>
  The stocked engine is saved and read back: the anvil is unchanged and the price of the
  bolt, 0.125, comes back as 0.12, which is 0.125 at two decimals.
\<close>

lemma stocked_reloaded:
  "\<not> isl (WarehouseSystem_ctor stod_decimal ''inventory.csv'' (disk (saveToFile fixed2 stocked)) []) \<and>
   getAllItems (projr (WarehouseSystem_ctor stod_decimal ''inventory.csv''
                        (disk (saveToFile fixed2 stocked)) [])) =
     [anvil, bolt\<lparr>i_price := 3 / 25\<rparr>] \<and>
   ofstream_opens (disk stocked) \<and> ifstream_opens (disk stocked) \<and>
   tuple_of (\<lambda>p. p) anvil = (2, ''Anvil'', ''Hardware'', 10, 120, 1) \<and>
   tuple_of (\<lambda>p. p) bolt = (5, ''Bolt'', ''Hardware/Small'', 10, 3 / 25, 2)"
  by code_simp

lemma examples_storable:
  "storable fixed2 stod_decimal (\<lambda>p. p) bolt \<and> storable fixed2 stod_decimal (\<lambda>p. p) anvil"
proof -
  have "in_int_range (i_id bolt) \<and> i_id bolt < INT_MAX \<and> in_int_range (i_quantity bolt) \<and>
        in_int_range (i_minStockLevel bolt) \<and> csv_safe (i_name bolt) \<and> csv_safe (i_category bolt) \<and>
        in_int_range (i_id anvil) \<and> i_id anvil < INT_MAX \<and> in_int_range (i_quantity anvil) \<and>
        in_int_range (i_minStockLevel anvil) \<and> csv_safe (i_name anvil) \<and> csv_safe (i_category anvil)"
    by code_simp
  then show ?thesis
    by (simp add: storable_def reads_nearest_exact)
qed

theorem save_then_load_restores_catalogue_witness:
  "ofstream_opens (disk stocked) \<and> ifstream_opens (disk stocked) \<and>
   storable fixed2 stod_decimal (\<lambda>p. p) bolt \<and> storable fixed2 stod_decimal (\<lambda>p. p) anvil \<and>
   getAllItems stocked = [anvil, bolt] \<and>
   (\<exists>t. WarehouseSystem_ctor stod_decimal ''inventory.csv'' (disk (saveToFile fixed2 stocked)) [] = Inr t \<and>
        getAllItems t = [anvil, bolt\<lparr>i_price := 3 / 25\<rparr>] \<and>
        map (tuple_of (\<lambda>p. p)) (getAllItems t) =
          [(2, ''Anvil'', ''Hardware'', 10, 120, 1), (5, ''Bolt'', ''Hardware/Small'', 10, 3 / 25, 2)] \<and>
        map (tuple_of (\<lambda>p. p)) (getAllItems t) = map (tuple_of (\<lambda>p. p)) (getAllItems stocked))"
proof -
  have opens: "ofstream_opens (disk stocked)" "ifstream_opens (disk stocked)"
    using stocked_reloaded by simp_all
  have h: "\<forall>k item. fmlookup (inventory stocked) k = Some item \<longrightarrow>
             i_id item = k \<and> storable fixed2 stod_decimal (\<lambda>p. p) item"
  proof (intro allI impI)
    fix k item
    assume "fmlookup (inventory stocked) k = Some item"
    then have "(k = 5 \<and> item = bolt) \<or> (k = 2 \<and> item = anvil)"
      by (auto simp: stocked_def fresh_def split: if_splits)
    with examples_storable show "i_id item = k \<and> storable fixed2 stod_decimal (\<lambda>p. p) item"
      by (auto simp: bolt_def anvil_def)
  qed
  from save_then_load_restores_catalogue [OF opens h, of "''inventory.csv''" "[]"] obtain t where
    t: "WarehouseSystem_ctor stod_decimal ''inventory.csv'' (disk (saveToFile fixed2 stocked)) [] = Inr t"
      "map (tuple_of (\<lambda>p. p)) (getAllItems t) = map (tuple_of (\<lambda>p. p)) (getAllItems stocked)"
    by blast
  from t(1) stocked_reloaded have items: "getAllItems t = [anvil, bolt\<lparr>i_price := 3 / 25\<rparr>]"
    by simp
  have stocked: "getAllItems stocked = [anvil, bolt]"
    using stocked_items by simp
  from t(2) stocked stocked_reloaded
  have tuples: "map (tuple_of (\<lambda>p. p)) (getAllItems t) =
      [(2, ''Anvil'', ''Hardware'', 10, 120, 1), (5, ''Bolt'', ''Hardware/Small'', 10, 3 / 25, 2)]"
    by simp
  from examples_storable have sb: "storable fixed2 stod_decimal (\<lambda>p. p) bolt"
    and sa: "storable fixed2 stod_decimal (\<lambda>p. p) anvil"
    by simp_all
  have reloaded: "\<exists>t. WarehouseSystem_ctor stod_decimal ''inventory.csv'' (disk (saveToFile fixed2 stocked)) [] = Inr t \<and>
        getAllItems t = [anvil, bolt\<lparr>i_price := 3 / 25\<rparr>] \<and>
        map (tuple_of (\<lambda>p. p)) (getAllItems t) =
          [(2, ''Anvil'', ''Hardware'', 10, 120, 1), (5, ''Bolt'', ''Hardware/Small'', 10, 3 / 25, 2)] \<and>
        map (tuple_of (\<lambda>p. p)) (getAllItems t) = map (tuple_of (\<lambda>p. p)) (getAllItems stocked)"
    by (intro exI [of _ t] conjI t(1) items tuples t(2))
  show ?thesis
    by (intro conjI opens sb sa stocked reloaded)
qed

end
